theory Spec2Isabelle
  imports Main
begin

section \<open>The shared key-value store\<close>

text \<open>
  Both services keep all their state in one Redis instance.  Keys are the strings the
  key builders of the services produce.  Instants are milliseconds since the epoch, as
  returned by \<^verbatim>\<open>Date.now()\<close>; an ISO-8601 string produced by
  \<^verbatim>\<open>toISOString()\<close> is represented by the instant it denotes, and a request is
  handled at one instant \<open>now\<close>.

  A value stored under a string key is either a plain text or the JSON text of a released
  message; the JSON text is represented by the object that was serialised.
\<close>

type_synonym key = string
type_synonym instant = int

datatype blob =
  Text string
  | ReleaseJson string "string option" "string option" blob instant
    \<comment> \<open>\<open>{type: "dms_release", switchId, senderPubkey, recipientUsername, encryptedMessage, triggeredAt}\<close>\<close>

record RecoveryConfig =
  cfg_ownerPubkey :: string
  cfg_threshold :: int
  cfg_guardianPubkeys :: "string list"
  cfg_createdAt :: instant

record GuardianShare =
  gs_encryptedShare :: string
  gs_ownerPubkey :: string
  gs_shareIndex :: int
  gs_createdAt :: instant

datatype session_status = Pending | Ready | Expired

record RecoverySession =
  sessionId :: string
  sess_ownerPubkey :: string
  ephemeralPubkey :: string
  sess_status :: session_status
  approvals :: int
  sess_threshold :: int
  sess_guardianPubkeys :: "string list"
  sess_createdAt :: instant

datatype dms_status = Active | Triggered | Cancelled

text \<open>
  A switch hash is written field by field (\<^verbatim>\<open>setHash(key, {status: ...})\<close>), so a hash
  may hold only some of the fields of the interface; a field that is not there reads as
  \<^verbatim>\<open>undefined\<close>, here \<open>None\<close>.
\<close>

record DMSSwitch =
  switchId :: "string option"
  senderPubkey :: "string option"
  recipientUsername :: "string option"
  arweaveTxId :: "string option"
  intervalHours :: "int option"
  nextDeadline :: "instant option"
  status :: "dms_status option"
  createdAt :: "instant option"
  triggeredAt :: "instant option"

text \<open>
  The store: one typed map per kind of hash (the key patterns of the kinds are disjoint),
  the string values with the instant at which they expire, the session hashes with the
  instant at which they expire, and the sets (a set is the list of its members, in the
  order \<^verbatim>\<open>smembers\<close> returns them; \<^verbatim>\<open>sadd\<close> and \<^verbatim>\<open>srem\<close> keep each member once).
\<close>

record store =
  configs :: "key \<rightharpoonup> RecoveryConfig"
  shares :: "key \<rightharpoonup> GuardianShare"
  sessions :: "key \<rightharpoonup> RecoverySession \<times> instant"
  switches :: "key \<rightharpoonup> DMSSwitch"
  strs :: "key \<rightharpoonup> blob \<times> instant"
  sets :: "key \<Rightarrow> string list"

definition emptyStore :: store where
  "emptyStore = \<lparr> configs = Map.empty, shares = Map.empty, sessions = Map.empty,
     switches = Map.empty, strs = Map.empty, sets = (\<lambda>k. []) \<rparr>"

text \<open>
  Modelled from the spec: the store adapter \<^verbatim>\<open>services/redis.js\<close> (\<^verbatim>\<open>getString\<close>,
  \<^verbatim>\<open>setStringWithExpiry\<close>, \<^verbatim>\<open>storeMessageBlob\<close>, \<^verbatim>\<open>getMessageContent\<close>,
  \<^verbatim>\<open>deleteKey\<close>) is not among the sources.  The spec describes it as string records
  with a per-key TTL in seconds: a value written at \<open>now\<close> with TTL \<open>ttl\<close> is readable
  at every instant before \<open>now + 1000 * ttl\<close> and gone from then on.
\<close>

definition getString :: "store \<Rightarrow> instant \<Rightarrow> key \<Rightarrow> blob option" where
  "getString s now k =
     (case strs s k of
        None \<Rightarrow> None
      | Some (v, e) \<Rightarrow> if now < e then Some v else None)"

definition setStringWithExpiry :: "store \<Rightarrow> instant \<Rightarrow> key \<Rightarrow> blob \<Rightarrow> int \<Rightarrow> store" where
  "setStringWithExpiry s now k v ttl = s\<lparr> strs := (strs s)(k \<mapsto> (v, now + 1000 * ttl)) \<rparr>"

definition storeMessageBlob :: "store \<Rightarrow> instant \<Rightarrow> key \<Rightarrow> blob \<Rightarrow> int \<Rightarrow> store" where
  "storeMessageBlob s now k v ttl = setStringWithExpiry s now k v ttl"

definition getMessageContent :: "store \<Rightarrow> instant \<Rightarrow> key \<Rightarrow> blob option" where
  "getMessageContent s now k = getString s now k"

definition deleteKey :: "store \<Rightarrow> key \<Rightarrow> store" where
  "deleteKey s k =
     s\<lparr> configs := (configs s)(k := None), shares := (shares s)(k := None),
        sessions := (sessions s)(k := None), switches := (switches s)(k := None),
        strs := (strs s)(k := None), sets := (sets s)(k := []) \<rparr>"

definition absent :: "store \<Rightarrow> key \<Rightarrow> bool" where
  "absent s k \<longleftrightarrow>
     configs s k = None \<and> shares s k = None \<and> sessions s k = None \<and>
     switches s k = None \<and> strs s k = None \<and> sets s k = []"

definition smembers :: "store \<Rightarrow> key \<Rightarrow> string list" where
  "smembers s k = sets s k"

definition sadd :: "store \<Rightarrow> key \<Rightarrow> string \<Rightarrow> store" where
  "sadd s k x = (if x \<in> set (sets s k) then s else s\<lparr> sets := (sets s)(k := sets s k @ [x]) \<rparr>)"

definition srem :: "store \<Rightarrow> key \<Rightarrow> string \<Rightarrow> store" where
  "srem s k x = s\<lparr> sets := (sets s)(k := removeAll x (sets s k)) \<rparr>"

text \<open>JavaScript truthiness of a string value, and \<^verbatim>\<open>String.prototype.includes\<close>.\<close>

fun truthy :: "blob \<Rightarrow> bool" where
  "truthy (Text t) = (t \<noteq> [])"
| "truthy (ReleaseJson i a b m t) = True"

definition startsWith :: "string \<Rightarrow> string \<Rightarrow> bool" where
  "startsWith s p = (take (length p) s = p)"

fun includes_str :: "string \<Rightarrow> string \<Rightarrow> bool" where
  "includes_str [] sub = (sub = [])"
| "includes_str (c # cs) sub = (startsWith (c # cs) sub \<or> includes_str cs sub)"

section \<open>Recovery service\<close>

definition configKey :: "string \<Rightarrow> key" where
  "configKey owner = ''recovery:config:'' @ owner"

definition shareKey :: "string \<Rightarrow> string \<Rightarrow> key" where
  "shareKey guardian owner = ''recovery:share:'' @ guardian @ '':'' @ owner"

definition sessionKey :: "string \<Rightarrow> key" where
  "sessionKey sid = ''recovery:session:'' @ sid"

definition sessionShareKey :: "string \<Rightarrow> string \<Rightarrow> key" where
  "sessionShareKey sid guardian = ''recovery:session:'' @ sid @ '':share:'' @ guardian"

definition SESSION_TTL :: int where
  "SESSION_TTL = 24 * 60 * 60"

record guardian_input =
  pubkey :: string
  encryptedShare :: string
  shareIndex :: int

definition storeShare :: "instant \<Rightarrow> string \<Rightarrow> guardian_input \<Rightarrow> store \<Rightarrow> store" where
  "storeShare now ownerPubkey g s =
     s\<lparr> shares := (shares s)(shareKey (pubkey g) ownerPubkey \<mapsto>
          \<lparr> gs_encryptedShare = encryptedShare g, gs_ownerPubkey = ownerPubkey,
            gs_shareIndex = shareIndex g, gs_createdAt = now \<rparr>) \<rparr>"

definition distributeShares :: "store \<Rightarrow> instant \<Rightarrow> string \<Rightarrow> int \<Rightarrow> guardian_input list \<Rightarrow> store" where
  "distributeShares s now ownerPubkey threshold guardians =
     (let cfg = \<lparr> cfg_ownerPubkey = ownerPubkey, cfg_threshold = threshold,
                  cfg_guardianPubkeys = map pubkey guardians, cfg_createdAt = now \<rparr>;
          s1 = s\<lparr> configs := (configs s)(configKey ownerPubkey \<mapsto> cfg) \<rparr>
      in fold (storeShare now ownerPubkey) guardians s1)"

definition getRecoveryConfig :: "store \<Rightarrow> string \<Rightarrow> RecoveryConfig option" where
  "getRecoveryConfig s ownerPubkey =
     (case configs s (configKey ownerPubkey) of
        None \<Rightarrow> None
      | Some d \<Rightarrow> if cfg_ownerPubkey d = [] then None else Some d)"

definition getShareForGuardian :: "store \<Rightarrow> string \<Rightarrow> string \<Rightarrow> GuardianShare option" where
  "getShareForGuardian s guardianPubkey ownerPubkey =
     (case shares s (shareKey guardianPubkey ownerPubkey) of
        None \<Rightarrow> None
      | Some d \<Rightarrow> if gs_encryptedShare d = [] then None else Some d)"

definition revokeShares :: "store \<Rightarrow> string \<Rightarrow> store" where
  "revokeShares s ownerPubkey =
     (let s1 = (case getRecoveryConfig s ownerPubkey of
                  Some cfg \<Rightarrow>
                    fold (\<lambda>g st. deleteKey st (shareKey g ownerPubkey)) (cfg_guardianPubkeys cfg) s
                | None \<Rightarrow> s)
      in deleteKey s1 (configKey ownerPubkey))"

text \<open>
  A thrown \<^verbatim>\<open>Error(message)\<close> is the left summand, carrying the message.  The session id
  is the value \<^verbatim>\<open>crypto.randomUUID()\<close> returned.
\<close>

definition createSession ::
  "store \<Rightarrow> instant \<Rightarrow> string \<Rightarrow> string \<Rightarrow> string \<Rightarrow> string list \<Rightarrow> string + store \<times> RecoverySession" where
  "createSession s now uuid ownerPubkey ephPubkey requestedGuardians =
     (case getRecoveryConfig s ownerPubkey of
        None \<Rightarrow> Inl ''No recovery config found for this identity''
      | Some cfg \<Rightarrow>
          (case find (\<lambda>g. g \<notin> set (cfg_guardianPubkeys cfg)) requestedGuardians of
             Some g \<Rightarrow> Inl (g @ '' is not a guardian for this identity'')
           | None \<Rightarrow>
               let session = \<lparr> sessionId = uuid, sess_ownerPubkey = ownerPubkey,
                     ephemeralPubkey = ephPubkey, sess_status = Pending, approvals = 0,
                     sess_threshold = cfg_threshold cfg,
                     sess_guardianPubkeys = requestedGuardians, sess_createdAt = now \<rparr>
               in Inr (s\<lparr> sessions := (sessions s)(sessionKey uuid \<mapsto>
                             (session, now + 1000 * SESSION_TTL)) \<rparr>, session)))"

definition getSession :: "store \<Rightarrow> instant \<Rightarrow> string \<Rightarrow> RecoverySession option" where
  "getSession s now sid =
     (case sessions s (sessionKey sid) of
        None \<Rightarrow> None
      | Some (d, e) \<Rightarrow> if now < e \<and> sessionId d \<noteq> [] then Some d else None)"

fun status_text :: "session_status \<Rightarrow> string" where
  "status_text Pending = ''pending''"
| "status_text Ready = ''ready''"
| "status_text Expired = ''expired''"

record approve_result =
  approved :: bool
  approvalsReceived :: int
  thresholdRequired :: int

text \<open>
  The update \<^verbatim>\<open>setHash(sessionKey(sessionId), updates)\<close> rewrites the fields
  \<^verbatim>\<open>approvals\<close> and, at the threshold, \<^verbatim>\<open>status\<close> of the hash just read; the
  hash keeps its expiry.
\<close>

definition approveSession ::
  "store \<Rightarrow> instant \<Rightarrow> string \<Rightarrow> string \<Rightarrow> string \<Rightarrow> string + store \<times> approve_result" where
  "approveSession s now sid guardianPubkey reEncryptedShare =
     (case getSession s now sid of
        None \<Rightarrow> Inl ''Session not found or expired''
      | Some session \<Rightarrow>
          if sess_status session \<noteq> Pending
          then Inl (''Session is '' @ status_text (sess_status session))
          else if guardianPubkey \<notin> set (sess_guardianPubkeys session)
          then Inl ''Not a valid guardian for this session''
          else if (case getString s now (sessionShareKey sid guardianPubkey) of
                     Some existing \<Rightarrow> truthy existing | None \<Rightarrow> False)
          then Inl ''Guardian already approved this session''
          else
            let s1 = setStringWithExpiry s now (sessionShareKey sid guardianPubkey)
                       (Text reEncryptedShare) SESSION_TTL;
                newCount = approvals session + 1;
                upd = (if newCount \<ge> sess_threshold session
                       then session\<lparr> approvals := newCount, sess_status := Ready \<rparr>
                       else session\<lparr> approvals := newCount \<rparr>);
                s2 = s1\<lparr> sessions := (sessions s1)(sessionKey sid :=
                        map_option (\<lambda>(d, e). (upd, e)) (sessions s1 (sessionKey sid))) \<rparr>
            in Inr (s2, \<lparr> approved = True, approvalsReceived = newCount,
                         thresholdRequired = sess_threshold session \<rparr>))"

fun collectShares :: "store \<Rightarrow> instant \<Rightarrow> string \<Rightarrow> string list \<Rightarrow> (string \<times> blob) list" where
  "collectShares s now sid [] = []"
| "collectShares s now sid (g # gs) =
     (case getString s now (sessionShareKey sid g) of
        Some share \<Rightarrow>
          if truthy share then (g, share) # collectShares s now sid gs
          else collectShares s now sid gs
      | None \<Rightarrow> collectShares s now sid gs)"

definition getReleasedShares :: "store \<Rightarrow> instant \<Rightarrow> string \<Rightarrow> string + (string \<times> blob) list" where
  "getReleasedShares s now sid =
     (case getSession s now sid of
        None \<Rightarrow> Inl ''Session not found or expired''
      | Some session \<Rightarrow>
          if sess_status session \<noteq> Ready
          then Inl (''Session not ready '' @ [CHR 0xE2, CHR 0x80, CHR 0x94] @ '' more approvals needed'')
          else Inr (collectShares s now sid (sess_guardianPubkeys session)))"

section \<open>Recovery routes\<close>

text \<open>
  A route returns the store it leaves and its HTTP response: the JSON body of a 200, or
  the status code and the \<^verbatim>\<open>error\<close> text.  The argument \<open>verified\<close> is the result
  of the call \<^verbatim>\<open>verifySignature(signature, timestamp, expectedMessage, pubkey)\<close> of the
  route; the verifier (\<^verbatim>\<open>middleware/auth.js\<close>) is not among the sources.
\<close>

datatype 'a response = Ok200 'a | Fail nat string

fun http_status :: "'a response \<Rightarrow> nat" where
  "http_status (Ok200 b) = 200"
| "http_status (Fail c m) = c"

record distribute_req =
  d_senderPubkey :: string
  d_threshold :: int
  d_guardians :: "guardian_input list"
  d_signature :: string
  d_timestamp :: int

record distribute_body =
  guardianCount :: nat
  db_threshold :: int

definition distribute_route ::
  "store \<Rightarrow> instant \<Rightarrow> bool \<Rightarrow> distribute_req \<Rightarrow> store \<times> distribute_body response" where
  "distribute_route s now verified req =
     (if d_senderPubkey req = [] \<or> d_threshold req = 0
      then (s, Fail 400 ''Missing required fields'')
      else if d_threshold req < 2
      then (s, Fail 400 ''Threshold must be at least 2'')
      else if int (length (d_guardians req)) < d_threshold req
      then (s, Fail 400 ''Need at least as many guardians as the threshold'')
      else if length (d_guardians req) > 10
      then (s, Fail 400 ''Maximum 10 guardians allowed'')
      else if d_signature req = [] \<or> d_timestamp req = 0
      then (s, Fail 401 ''Request must be signed'')
      else if \<not> verified
      then (s, Fail 403 ''Invalid signature'')
      else
        let s1 = revokeShares s (d_senderPubkey req);
            s2 = distributeShares s1 now (d_senderPubkey req) (d_threshold req) (d_guardians req)
        in (s2, Ok200 \<lparr> guardianCount = length (d_guardians req),
                          db_threshold = d_threshold req \<rparr>))"

record revoke_req =
  r_senderPubkey :: string
  r_signature :: string
  r_timestamp :: int

definition revoke_route :: "store \<Rightarrow> bool \<Rightarrow> revoke_req \<Rightarrow> store \<times> unit response" where
  "revoke_route s verified req =
     (if r_senderPubkey req = [] \<or> r_signature req = [] \<or> r_timestamp req = 0
      then (s, Fail 400 ''Missing required fields'')
      else if \<not> verified
      then (s, Fail 403 ''Invalid signature'')
      else (revokeShares s (r_senderPubkey req), Ok200 ()))"

record approve_req =
  a_guardianPubkey :: string
  a_reEncryptedShare :: string
  a_signature :: string
  a_timestamp :: int

definition approve_route ::
  "store \<Rightarrow> instant \<Rightarrow> bool \<Rightarrow> string \<Rightarrow> approve_req \<Rightarrow> store \<times> approve_result response" where
  "approve_route s now verified sid req =
     (if a_guardianPubkey req = [] \<or> a_reEncryptedShare req = [] \<or> a_signature req = []
         \<or> a_timestamp req = 0
      then (s, Fail 400 ''Missing required fields'')
      else if \<not> verified
      then (s, Fail 403 ''Invalid signature'')
      else
        (case approveSession s now sid (a_guardianPubkey req) (a_reEncryptedShare req) of
           Inr (s', result) \<Rightarrow> (s', Ok200 result)
         | Inl message \<Rightarrow>
             if includes_str message ''not found'' \<or> includes_str message ''expired''
             then (s, Fail 404 message)
             else if includes_str message ''already approved''
             then (s, Fail 409 message)
             else if includes_str message ''not a valid guardian''
             then (s, Fail 403 message)
             else (s, Fail 500 ''Failed to approve recovery'')))"

definition shares_route :: "store \<Rightarrow> instant \<Rightarrow> string \<Rightarrow> (string \<times> blob) list response" where
  "shares_route s now sid =
     (case getReleasedShares s now sid of
        Inr shs \<Rightarrow> Ok200 shs
      | Inl message \<Rightarrow>
          if includes_str message ''not found'' \<or> includes_str message ''expired''
          then Fail 404 message
          else if includes_str message ''not ready''
          then Fail 403 ''Not enough guardians have approved yet''
          else Fail 500 ''Failed to get shares'')"

section \<open>Dead man's switch service\<close>

definition switchKey :: "string \<Rightarrow> key" where
  "switchKey sid = ''dms:switch:'' @ sid"

definition userSwitchesKey :: "string \<Rightarrow> key" where
  "userSwitchesKey pk = ''dms:user:'' @ pk"

definition ACTIVE_SET :: key where
  "ACTIVE_SET = ''dms:active''"

record DMSSwitchInput =
  in_senderPubkey :: string
  in_recipientUsername :: string
  in_arweaveTxId :: string
  in_intervalHours :: int

definition noFields :: DMSSwitch where
  "noFields = \<lparr> switchId = None, senderPubkey = None, recipientUsername = None,
     arweaveTxId = None, intervalHours = None, nextDeadline = None, status = None,
     createdAt = None, triggeredAt = None \<rparr>"

text \<open>
  Modelled from the spec: \<^verbatim>\<open>setHash\<close> and \<^verbatim>\<open>getHash\<close> of the store adapter
  \<^verbatim>\<open>services/redis.js\<close>, which is not among the sources.  \<^verbatim>\<open>setHash(key, fields)\<close>
  writes the given fields into the hash under the key and leaves its other fields as they
  are; the hash is created when the key holds none.  The fields written are given as the
  update they make.
\<close>

definition setHash :: "store \<Rightarrow> key \<Rightarrow> (DMSSwitch \<Rightarrow> DMSSwitch) \<Rightarrow> store" where
  "setHash s k upd =
     s\<lparr> switches := (switches s)(k \<mapsto>
          upd (case switches s k of None \<Rightarrow> noFields | Some h \<Rightarrow> h)) \<rparr>"

definition getHash :: "store \<Rightarrow> key \<Rightarrow> DMSSwitch option" where
  "getHash s k = switches s k"

text \<open>A field interpolated into a template literal: \<^verbatim>\<open>undefined\<close> prints as its name.\<close>

definition text_of :: "string option \<Rightarrow> string" where
  "text_of v = (case v of None \<Rightarrow> ''undefined'' | Some t \<Rightarrow> t)"

text \<open>
  \<^verbatim>\<open>createSwitch\<close>; \<open>uuid\<close> is the value \<^verbatim>\<open>crypto.randomUUID()\<close> returned and
  \<open>now\<close> the time value of \<^verbatim>\<open>new Date()\<close>.  The record written has every field of
  the interface but \<^verbatim>\<open>triggeredAt\<close>.  The two dates are kept as the instants that
  their ISO-8601 texts denote; both are time values of a \<^verbatim>\<open>Date\<close> for the clock of a
  running server and the intervals of at most 8760 hours that the route passes.
\<close>

definition createSwitch :: "store \<Rightarrow> instant \<Rightarrow> string \<Rightarrow> DMSSwitchInput \<Rightarrow> store \<times> DMSSwitch" where
  "createSwitch s now uuid input =
     (let deadline = now + in_intervalHours input * 60 * 60 * 1000;
          sw = \<lparr> switchId = Some uuid, senderPubkey = Some (in_senderPubkey input),
                 recipientUsername = Some (in_recipientUsername input),
                 arweaveTxId = Some (in_arweaveTxId input),
                 intervalHours = Some (in_intervalHours input),
                 nextDeadline = Some deadline, status = Some Active,
                 createdAt = Some now, triggeredAt = None \<rparr>;
          s1 = setHash s (switchKey uuid) (\<lambda>h. sw\<lparr> triggeredAt := triggeredAt h \<rparr>);
          s2 = sadd s1 (userSwitchesKey (in_senderPubkey input)) uuid;
          s3 = sadd s2 ACTIVE_SET uuid
      in (s3, sw))"

definition getSwitch :: "store \<Rightarrow> string \<Rightarrow> DMSSwitch option" where
  "getSwitch s sid =
     (case getHash s (switchKey sid) of
        None \<Rightarrow> None
      | Some d \<Rightarrow>
          (case switchId d of
             None \<Rightarrow> None
           | Some t \<Rightarrow> if t = [] then None else Some d))"

fun loadSwitches :: "store \<Rightarrow> string list \<Rightarrow> DMSSwitch list" where
  "loadSwitches s [] = []"
| "loadSwitches s (i # ids) =
     (case getSwitch s i of
        Some sw \<Rightarrow> sw # loadSwitches s ids
      | None \<Rightarrow> loadSwitches s ids)"

definition getUserSwitches :: "store \<Rightarrow> string \<Rightarrow> DMSSwitch list" where
  "getUserSwitches s pk = loadSwitches s (smembers s (userSwitchesKey pk))"

text \<open>
  The time value of a \<^verbatim>\<open>Date\<close> is at most 8.64e15 milliseconds away from the epoch;
  \<^verbatim>\<open>new Date(t)\<close> of a \<open>t\<close> beyond that is an invalid date.
\<close>

definition validTime :: "instant \<Rightarrow> bool" where
  "validTime t \<longleftrightarrow> - 8640000000000000 \<le> t \<and> t \<le> 8640000000000000"

text \<open>
  The year of a time value, as \<^verbatim>\<open>toISOString\<close> prints it: \<open>dayFromYear y\<close> is the day
  number of the first day of the year \<open>y\<close> of the proleptic Gregorian calendar, counted
  from the epoch, and \<open>yearFromTime t\<close> is the year whose days hold the day of \<open>t\<close>.  The
  quotient \<open>400 * d div 146097\<close> (a day \<open>d\<close> over the mean length of a year) is that year,
  counted from 1970, or a neighbour of it.
\<close>

definition dayFromYear :: "int \<Rightarrow> int" where
  "dayFromYear y =
     365 * (y - 1970) + (y - 1969) div 4 - (y - 1901) div 100 + (y - 1601) div 400"

definition yearFromTime :: "instant \<Rightarrow> int" where
  "yearFromTime t =
     (let d = t div 86400000; y = 1970 + (400 * d) div 146097
      in if dayFromYear (y + 1) \<le> d then y + 1
         else if d < dayFromYear y then y - 1
         else y)"

text \<open>
  The order of two ISO-8601 texts \<^verbatim>\<open>a < b\<close>, as JavaScript compares strings, for the
  texts that \<^verbatim>\<open>toISOString\<close> gives of two valid time values.  A year from 0 to 9999 is
  printed with four digits, a later year as \<^verbatim>\<open>+\<close> and six digits, an earlier one as
  \<^verbatim>\<open>-\<close> and the six digits of its magnitude; month, day and time of day follow in
  fixed width.  The character \<^verbatim>\<open>+\<close> is below \<^verbatim>\<open>-\<close>, which is below the digits: so the
  texts of the years past 9999 come first, then those of the years before 0, then those of
  the years 0 to 9999.  Among the texts of one of these three kinds the earlier instant has
  the lesser text, but for two instants of different years before 0, where the year of the
  greater magnitude has the greater text.
\<close>

definition isoClass :: "int \<Rightarrow> nat" where
  "isoClass y = (if 9999 < y then 0 else if y < 0 then 1 else 2)"

definition isoLess :: "instant \<Rightarrow> instant \<Rightarrow> bool" where
  "isoLess a b =
     (let ya = yearFromTime a; yb = yearFromTime b
      in if isoClass ya \<noteq> isoClass yb then isoClass ya < isoClass yb
         else if ya < 0 \<and> ya \<noteq> yb then yb < ya
         else a < b)"

text \<open>
  The loop of \<^verbatim>\<open>refreshDeadlines\<close>.  \<^verbatim>\<open>Number(undefined)\<close> is \<^verbatim>\<open>NaN\<close>, and
  \<^verbatim>\<open>toISOString\<close> of an invalid date throws a \<^verbatim>\<open>RangeError\<close>, which leaves the loop
  with the writes made so far.  A deadline is kept as the instant that its ISO-8601 text
  denotes; the test \<^verbatim>\<open>iso > latestDeadline\<close> compares the two texts.
\<close>

fun refreshLoop ::
  "instant \<Rightarrow> DMSSwitch list \<Rightarrow> store \<Rightarrow> instant option \<Rightarrow> store \<times> (string + instant option)" where
  "refreshLoop now [] s latestDeadline = (s, Inr latestDeadline)"
| "refreshLoop now (sw # rest) s latestDeadline =
     (case intervalHours sw of
        None \<Rightarrow> (s, Inl ''Invalid time value'')
      | Some h \<Rightarrow>
          let deadline = now + h * 60 * 60 * 1000
          in if \<not> validTime deadline then (s, Inl ''Invalid time value'')
             else
               let iso = deadline;
                   s1 = setHash s (switchKey (text_of (switchId sw)))
                          (\<lambda>d. d\<lparr> nextDeadline := Some iso \<rparr>);
                   latest1 = (case latestDeadline of
                                None \<Rightarrow> Some iso
                              | Some l \<Rightarrow> if isoLess l iso then Some iso else Some l)
               in refreshLoop now rest s1 latest1)"

definition refreshDeadlines ::
  "store \<Rightarrow> instant \<Rightarrow> string \<Rightarrow> store \<times> (string + nat \<times> instant option)" where
  "refreshDeadlines s now pk =
     (let sws = getUserSwitches s pk;
          active = filter (\<lambda>sw. status sw = Some Active) sws
      in case refreshLoop now active s None of
           (s', Inl e) \<Rightarrow> (s', Inl e)
         | (s', Inr latestDeadline) \<Rightarrow> (s', Inr (length active, latestDeadline)))"

definition cancelSwitch :: "store \<Rightarrow> string \<Rightarrow> string \<Rightarrow> store \<times> bool" where
  "cancelSwitch s sid requesterPubkey =
     (case getSwitch s sid of
        None \<Rightarrow> (s, False)
      | Some sw \<Rightarrow>
          if senderPubkey sw \<noteq> Some requesterPubkey then (s, False)
          else
            let s1 = setHash s (switchKey sid) (\<lambda>d. d\<lparr> status := Some Cancelled \<rparr>);
                s2 = srem s1 ACTIVE_SET sid;
                s3 = srem s2 (userSwitchesKey requesterPubkey) sid
            in (s3, True))"

text \<open>
  The loop of \<^verbatim>\<open>getOverdueSwitches\<close> over the members of the active set read at its
  start.  A deadline that is not there parses to an invalid date, which is not before
  \<open>now\<close>.
\<close>

fun overdueLoop :: "instant \<Rightarrow> string list \<Rightarrow> store \<Rightarrow> store \<times> DMSSwitch list" where
  "overdueLoop now [] s = (s, [])"
| "overdueLoop now (i # ids) s =
     (case getSwitch s i of
        None \<Rightarrow> overdueLoop now ids (srem s ACTIVE_SET i)
      | Some sw \<Rightarrow>
          if status sw \<noteq> Some Active then overdueLoop now ids (srem s ACTIVE_SET i)
          else
            let (s', overdue) = overdueLoop now ids s
            in if (case nextDeadline sw of None \<Rightarrow> False | Some d \<Rightarrow> d < now)
               then (s', sw # overdue) else (s', overdue))"

definition getOverdueSwitches :: "store \<Rightarrow> instant \<Rightarrow> store \<times> DMSSwitch list" where
  "getOverdueSwitches s now = overdueLoop now (smembers s ACTIVE_SET) s"

definition markTriggered :: "store \<Rightarrow> instant \<Rightarrow> string \<Rightarrow> store" where
  "markTriggered s now sid =
     (let s1 = setHash s (switchKey sid) (\<lambda>d. d\<lparr> status := Some Triggered, triggeredAt := Some now \<rparr>)
      in srem s1 ACTIVE_SET sid)"

section \<open>Dead man's switch routes\<close>

record create_req =
  c_recipientUsername :: string
  c_encryptedMessage :: string
  c_checkInIntervalHours :: int
  c_senderPubkey :: string
  c_signature :: string
  c_timestamp :: int

record create_body =
  cb_switchId :: "string option"
  cb_nextDeadline :: "instant option"

text \<open>
  \<^verbatim>\<open>POST /create\<close>.  The collaborators are arguments: \<open>recipientFound\<close> tells whether
  \<^verbatim>\<open>getUserAccount(recipientUsername)\<close> returned an account, \<open>upload\<close> is the
  transaction id \<^verbatim>\<open>uploadToArweave\<close> returned, or \<open>None\<close> when it threw, and
  \<open>nonce\<close> is the text \<^verbatim>\<open>${Date.now()}-${Math.random().toString(36).slice(2, 8)}\<close> of
  the fallback id.
\<close>

definition create_route ::
  "store \<Rightarrow> instant \<Rightarrow> bool \<Rightarrow> bool \<Rightarrow> string option \<Rightarrow> string \<Rightarrow> string \<Rightarrow> create_req
     \<Rightarrow> store \<times> create_body response" where
  "create_route s now verified recipientFound upload uuid nonce req =
     (if c_recipientUsername req = [] \<or> c_encryptedMessage req = []
         \<or> c_checkInIntervalHours req = 0 \<or> c_senderPubkey req = []
      then (s, Fail 400 ''Missing required fields'')
      else if c_checkInIntervalHours req < 1 \<or> c_checkInIntervalHours req > 8760
      then (s, Fail 400 ''Interval must be between 1 and 8760 hours'')
      else if c_signature req = [] \<or> c_timestamp req = 0
      then (s, Fail 401 ''Request must be signed'')
      else if \<not> verified
      then (s, Fail 403 ''Invalid signature'')
      else if \<not> recipientFound
      then (s, Fail 404 ''Recipient username not found on-chain'')
      else
        let (s1, txId) =
              (case upload of
                 Some t \<Rightarrow> (s, t)
               | None \<Rightarrow>
                   let fallbackId = ''local-'' @ nonce
                   in (storeMessageBlob s now (''dms:'' @ fallbackId)
                         (Text (c_encryptedMessage req)) (365 * 24 * 60 * 60),
                       ''local:'' @ fallbackId));
            (s2, sw) = createSwitch s1 now uuid
                         \<lparr> in_senderPubkey = c_senderPubkey req,
                           in_recipientUsername = c_recipientUsername req,
                           in_arweaveTxId = txId,
                           in_intervalHours = c_checkInIntervalHours req \<rparr>
        in (s2, Ok200 \<lparr> cb_switchId = switchId sw, cb_nextDeadline = nextDeadline sw \<rparr>))"

record signed_req =
  q_senderPubkey :: string
  q_signature :: string
  q_timestamp :: int

record checkin_body =
  switchCount :: nat
  ck_nextDeadline :: "instant option"

definition checkin_route :: "store \<Rightarrow> instant \<Rightarrow> bool \<Rightarrow> signed_req \<Rightarrow> store \<times> checkin_body response" where
  "checkin_route s now verified req =
     (if q_senderPubkey req = [] \<or> q_signature req = [] \<or> q_timestamp req = 0
      then (s, Fail 400 ''Missing required fields'')
      else if \<not> verified
      then (s, Fail 403 ''Invalid signature'')
      else
        (case refreshDeadlines s now (q_senderPubkey req) of
           (s', Inl e) \<Rightarrow> (s', Fail 500 ''Failed to check in'')
         | (s', Inr (n, latest)) \<Rightarrow> (s', Ok200 \<lparr> switchCount = n, ck_nextDeadline = latest \<rparr>)))"

record list_item =
  li_switchId :: "string option"
  li_recipientUsername :: "string option"
  li_intervalHours :: "int option"
  li_nextDeadline :: "instant option"
  li_status :: "dms_status option"
  li_createdAt :: "instant option"
  li_triggeredAt :: "instant option"

definition list_route :: "store \<Rightarrow> string \<Rightarrow> list_item list response" where
  "list_route s pk =
     Ok200 (map (\<lambda>sw. \<lparr> li_switchId = switchId sw, li_recipientUsername = recipientUsername sw,
                         li_intervalHours = intervalHours sw, li_nextDeadline = nextDeadline sw,
                         li_status = status sw, li_createdAt = createdAt sw,
                         li_triggeredAt = triggeredAt sw \<rparr>)
              (getUserSwitches s pk))"

definition cancel_route :: "store \<Rightarrow> bool \<Rightarrow> string \<Rightarrow> signed_req \<Rightarrow> store \<times> unit response" where
  "cancel_route s verified sid req =
     (if q_senderPubkey req = [] \<or> q_signature req = [] \<or> q_timestamp req = 0
      then (s, Fail 400 ''Missing required fields'')
      else if \<not> verified
      then (s, Fail 403 ''Invalid signature'')
      else
        (case cancelSwitch s sid (q_senderPubkey req) of
           (s', False) \<Rightarrow> (s', Fail 404 ''Switch not found or not owned by you'')
         | (s', True) \<Rightarrow> (s', Ok200 ())))"

text \<open>
  The sweep.  An entry of \<^verbatim>\<open>errors\<close> is one of the three texts the loop pushes:
  \<^verbatim>\<open>${sw.switchId}: recipient @${sw.recipientUsername} not found\<close>,
  \<^verbatim>\<open>${sw.switchId}: could not retrieve encrypted payload\<close>, and
  \<^verbatim>\<open>${sw.switchId}: ${err.message}\<close> for an exception caught in the loop (the
  \<^verbatim>\<open>TypeError\<close> of \<^verbatim>\<open>startsWith\<close> on a handle that is not there).
\<close>

datatype sweep_error =
  RecipientNotFound string string
  | PayloadUnavailable string
  | Caught string

text \<open>
  The payload of a switch: from the local fallback when the handle starts with
  \<^verbatim>\<open>local:\<close> (the first \<^verbatim>\<open>local:\<close> of such a handle is its first six characters),
  from the blob store otherwise.  \<open>arweave\<close> is the text of the blob store's response
  for a handle, \<open>None\<close> when the response is not ok or the fetch throws.
\<close>

definition fetchPayload :: "store \<Rightarrow> instant \<Rightarrow> (string \<Rightarrow> string option) \<Rightarrow> string \<Rightarrow> blob option" where
  "fetchPayload s now arweave txId =
     (if startsWith txId ''local:''
      then let localId = drop 6 txId in getMessageContent s now (''dms:'' @ localId)
      else map_option Text (arweave txId))"

record sweep_acc =
  processed :: nat
  errors :: "sweep_error list"
  triggeredLog :: "string list"

text \<open>
  One turn of the loop of \<^verbatim>\<open>POST /process\<close>; \<open>triggeredLog\<close> collects the switch ids of
  the lines \<^verbatim>\<open>DMS triggered: ${sw.switchId}\<close> that the loop logs.
\<close>

definition processSwitch ::
  "(string option \<Rightarrow> bool) \<Rightarrow> (string \<Rightarrow> string option) \<Rightarrow> instant \<Rightarrow> DMSSwitch
     \<Rightarrow> store \<times> sweep_acc \<Rightarrow> store \<times> sweep_acc" where
  "processSwitch getUserAccount arweave now sw st =
     (let s = fst st; acc = snd st; sid = text_of (switchId sw)
      in if \<not> getUserAccount (recipientUsername sw)
         then (s, acc\<lparr> errors := errors acc @
                  [RecipientNotFound sid (text_of (recipientUsername sw))] \<rparr>)
         else
           (case arweaveTxId sw of
              None \<Rightarrow> (s, acc\<lparr> errors := errors acc @ [Caught sid] \<rparr>)
            | Some txId \<Rightarrow>
                (case fetchPayload s now arweave txId of
                   None \<Rightarrow> (s, acc\<lparr> errors := errors acc @ [PayloadUnavailable sid] \<rparr>)
                 | Some encryptedPayload \<Rightarrow>
                     if \<not> truthy encryptedPayload
                     then (s, acc\<lparr> errors := errors acc @ [PayloadUnavailable sid] \<rparr>)
                     else
                       let releaseId = ''dms:release:'' @ sid;
                           s1 = storeMessageBlob s now releaseId
                                  (ReleaseJson sid (senderPubkey sw) (recipientUsername sw)
                                     encryptedPayload now)
                                  (90 * 24 * 60 * 60);
                           s2 = markTriggered s1 now sid
                       in (s2, acc\<lparr> processed := processed acc + 1,
                                     triggeredLog := triggeredLog acc @ [sid] \<rparr>))))"

record sweep_body =
  sb_processed :: nat
  sb_total :: "nat option"
  sb_errors :: "sweep_error list option"

text \<open>
  \<^verbatim>\<open>POST /process\<close>: \<open>cronSecret\<close> is the header \<^verbatim>\<open>x-cron-secret\<close> of the request and
  \<open>dmsCronSecret\<close> the configured secret (\<^verbatim>\<open>config.js\<close> is not among the sources).
  The route returns the store, the response and the ids it logged as triggered.
\<close>

definition process_route ::
  "store \<Rightarrow> instant \<Rightarrow> string option \<Rightarrow> string \<Rightarrow> (string option \<Rightarrow> bool)
     \<Rightarrow> (string \<Rightarrow> string option) \<Rightarrow> store \<times> sweep_body response \<times> string list" where
  "process_route s now cronSecret dmsCronSecret getUserAccount arweave =
     (if cronSecret = None \<or> cronSecret = Some [] \<or> cronSecret \<noteq> Some dmsCronSecret
      then (s, Fail 401 ''Invalid cron secret'', [])
      else
        let (s1, overdue) = getOverdueSwitches s now
        in if overdue = []
           then (s1, Ok200 \<lparr> sb_processed = 0, sb_total = None, sb_errors = None \<rparr>, [])
           else
             let (s2, acc) = fold (processSwitch getUserAccount arweave now) overdue
                               (s1, \<lparr> processed = 0, errors = [], triggeredLog = [] \<rparr>)
             in (s2, Ok200 \<lparr> sb_processed = processed acc, sb_total = Some (length overdue),
                               sb_errors = (if errors acc = [] then None else Some (errors acc)) \<rparr>,
                 triggeredLog acc))"

section \<open>Predicates on the store\<close>

text \<open>
  Every switch record that \<^verbatim>\<open>getSwitch\<close> returns sits under the key of its own id.
  \<^verbatim>\<open>createSwitch\<close> writes its record so, and no operation rewrites the id of a record.
\<close>

definition keyed :: "store \<Rightarrow> bool" where
  "keyed s \<longleftrightarrow> (\<forall>i sw. getSwitch s i = Some sw \<longrightarrow> switchId sw = Some i)"

definition inActiveIndex :: "store \<Rightarrow> string \<Rightarrow> bool" where
  "inActiveIndex s i \<longleftrightarrow> i \<in> set (smembers s ACTIVE_SET)"

definition inUserIndex :: "store \<Rightarrow> DMSSwitch \<Rightarrow> string \<Rightarrow> bool" where
  "inUserIndex s sw i \<longleftrightarrow> i \<in> set (smembers s (userSwitchesKey (text_of (senderPubkey sw))))"

text \<open>
  The invariant I5 in the words of the spec: an active switch is in both indices, a
  switch of any other status (triggered or cancelled) is in neither.
\<close>

definition I5_as_claimed :: "store \<Rightarrow> bool" where
  "I5_as_claimed s \<longleftrightarrow>
     (\<forall>i sw. getSwitch s i = Some sw \<longrightarrow>
        (status sw = Some Active \<longrightarrow> inActiveIndex s i \<and> inUserIndex s sw i) \<and>
        (status sw = Some Triggered \<or> status sw = Some Cancelled \<longrightarrow>
           \<not> inActiveIndex s i \<and> \<not> inUserIndex s sw i))"

text \<open>
  The invariant the operations keep: an active switch is in both indices, a cancelled
  switch is in neither, a triggered switch is not in the active index.  It says nothing
  of a triggered switch and its owner's index.
\<close>

definition I5_amended :: "store \<Rightarrow> bool" where
  "I5_amended s \<longleftrightarrow>
     (\<forall>i sw. getSwitch s i = Some sw \<longrightarrow>
        (status sw = Some Active \<longrightarrow> inActiveIndex s i \<and> inUserIndex s sw i) \<and>
        (status sw = Some Cancelled \<longrightarrow> \<not> inActiveIndex s i \<and> \<not> inUserIndex s sw i) \<and>
        (status sw = Some Triggered \<longrightarrow> \<not> inActiveIndex s i))"

text \<open>
  What the invariants read of a switch record: its id, its owner and its status.
\<close>

definition index_view :: "DMSSwitch \<Rightarrow> string option \<times> string option \<times> dms_status option" where
  "index_view sw = (switchId sw, senderPubkey sw, status sw)"

text \<open>The key of the release record of a switch, \<^verbatim>\<open>dms:release:<switchId>\<close>.\<close>

definition releaseKey :: "string \<Rightarrow> key" where
  "releaseKey sid = ''dms:release:'' @ sid"

text \<open>
  What holds of the store and the tally between two turns of the sweep's loop at
  instant \<open>now\<close> over the overdue records \<open>overdue\<close>: the tally counts the logged ids, the
  hash of every overdue record is there under the record's id, and every logged id has
  its hash marked triggered at \<open>now\<close>, is out of the active index, and has its release
  record, built from an overdue record of that id, written with the 90-day expiry.
\<close>

definition sweep_inv :: "instant \<Rightarrow> DMSSwitch list \<Rightarrow> store \<times> sweep_acc \<Rightarrow> bool" where
  "sweep_inv now overdue st \<longleftrightarrow>
     processed (snd st) = length (triggeredLog (snd st)) \<and>
     (\<forall>sw \<in> set overdue. \<exists>i h. switchId sw = Some i \<and> i \<noteq> [] \<and>
         switches (fst st) (switchKey i) = Some h \<and> switchId h = Some i) \<and>
     (\<forall>i \<in> set (triggeredLog (snd st)).
         (\<exists>h. switches (fst st) (switchKey i) = Some h \<and> status h = Some Triggered \<and>
               triggeredAt h = Some now) \<and>
         i \<notin> set (smembers (fst st) ACTIVE_SET) \<and>
         (\<exists>sw \<in> set overdue. \<exists>payload. switchId sw = Some i \<and> truthy payload \<and>
            strs (fst st) (releaseKey i) =
              Some (ReleaseJson i (senderPubkey sw) (recipientUsername sw) payload now,
                    now + 7776000000)))"

section \<open>Concrete scenarios\<close>

text \<open>
  The 2-of-3 recovery of the spec's first scenario: owner \<open>O\<close> distributes to
  \<open>G1\<close>, \<open>G2\<close>, \<open>G3\<close> with threshold 2, a session \<open>sid\<close> is requested for the three
  of them, and \<open>G1\<close> and \<open>G2\<close> approve.
\<close>

definition three_guardians :: "guardian_input list" where
  "three_guardians =
     [\<lparr> pubkey = ''G1'', encryptedShare = ''c1'', shareIndex = 0 \<rparr>,
      \<lparr> pubkey = ''G2'', encryptedShare = ''c2'', shareIndex = 1 \<rparr>,
      \<lparr> pubkey = ''G3'', encryptedShare = ''c3'', shareIndex = 2 \<rparr>]"

definition s_distributed :: store where
  "s_distributed = distributeShares emptyStore 1000 ''O'' 2 three_guardians"

definition s_requested :: store where
  "s_requested =
     (case createSession s_distributed 2000 ''sid'' ''O'' ''EP'' [''G1'', ''G2'', ''G3''] of
        Inr (s, session) \<Rightarrow> s
      | Inl e \<Rightarrow> s_distributed)"

definition s_approved1 :: store where
  "s_approved1 =
     (case approveSession s_requested 3000 ''sid'' ''G1'' ''r1'' of
        Inr (s, r) \<Rightarrow> s
      | Inl e \<Rightarrow> s_requested)"

definition s_approved2 :: store where
  "s_approved2 =
     (case approveSession s_approved1 4000 ''sid'' ''G2'' ''r2'' of
        Inr (s, r) \<Rightarrow> s
      | Inl e \<Rightarrow> s_approved1)"

text \<open>A distribute request whose share indices are 0, 0 and 7.\<close>

definition skewed_guardians :: "guardian_input list" where
  "skewed_guardians =
     [\<lparr> pubkey = ''G1'', encryptedShare = ''c1'', shareIndex = 0 \<rparr>,
      \<lparr> pubkey = ''G2'', encryptedShare = ''c2'', shareIndex = 0 \<rparr>,
      \<lparr> pubkey = ''G3'', encryptedShare = ''c3'', shareIndex = 7 \<rparr>]"

definition skewed_req :: distribute_req where
  "skewed_req = \<lparr> d_senderPubkey = ''O'', d_threshold = 2, d_guardians = skewed_guardians,
     d_signature = ''sig'', d_timestamp = 1000 \<rparr>"

text \<open>A distribute request that lists the guardian \<open>G1\<close> twice, with the indices 0 and 1.\<close>

definition twin_req :: distribute_req where
  "twin_req = \<lparr> d_senderPubkey = ''O'', d_threshold = 2,
     d_guardians = [\<lparr> pubkey = ''G1'', encryptedShare = ''c1'', shareIndex = 0 \<rparr>,
                    \<lparr> pubkey = ''G1'', encryptedShare = ''c2'', shareIndex = 1 \<rparr>],
     d_signature = ''sig'', d_timestamp = 1000 \<rparr>"

text \<open>
  A dead man's switch of sender \<open>S\<close> for recipient \<open>alice\<close> with an interval of one
  hour, created at instant 1000 on the empty store under the id \<open>w1\<close>; the same switch
  marked triggered two hours later; and a second switch of \<open>S\<close>, for \<open>bob\<close> with an
  interval of five hours, created at instant 2000 under the id \<open>w2\<close>.
\<close>

definition alice_input :: DMSSwitchInput where
  "alice_input = \<lparr> in_senderPubkey = ''S'', in_recipientUsername = ''alice'',
     in_arweaveTxId = ''tx1'', in_intervalHours = 1 \<rparr>"

definition s_created :: store where
  "s_created = fst (createSwitch emptyStore 1000 ''w1'' alice_input)"

definition s_triggered :: store where
  "s_triggered = markTriggered s_created 7200000 ''w1''"

definition bob_input :: DMSSwitchInput where
  "bob_input = \<lparr> in_senderPubkey = ''S'', in_recipientUsername = ''bob'',
     in_arweaveTxId = ''tx2'', in_intervalHours = 5 \<rparr>"

definition s_two :: store where
  "s_two = fst (createSwitch s_created 2000 ''w2'' bob_input)"



text \<open>
  The create request of sender \<open>S\<close> for \<open>alice\<close>, signed requests of \<open>S\<close> and of
  another sender \<open>T\<close>, the store after the route has created the switch, and the store
  after \<open>S\<close> has cancelled it.
\<close>

definition alice_req :: create_req where
  "alice_req = \<lparr> c_recipientUsername = ''alice'', c_encryptedMessage = ''ciphertext'',
     c_checkInIntervalHours = 1, c_senderPubkey = ''S'', c_signature = ''sig'',
     c_timestamp = 1000 \<rparr>"

definition S_req :: signed_req where
  "S_req = \<lparr> q_senderPubkey = ''S'', q_signature = ''sig'', q_timestamp = 2000 \<rparr>"

definition T_req :: signed_req where
  "T_req = \<lparr> q_senderPubkey = ''T'', q_signature = ''sig'', q_timestamp = 2000 \<rparr>"

definition s_created_by_route :: store where
  "s_created_by_route =
     fst (create_route emptyStore 1000 True True (Some ''tx1'') ''w1'' ''n1'' alice_req)"

definition s_cancelled :: store where
  "s_cancelled = fst (cancel_route s_created_by_route True ''w1'' S_req)"

text \<open>
  A create request of \<open>S\<close> with the longest interval the route accepts, 8760 hours,
  handled at instant 1000 while the upload to the blob store throws; and the blob store
  that answers \<open>tx1\<close> with the ciphertext.
\<close>

definition year_req :: create_req where
  "year_req = \<lparr> c_recipientUsername = ''alice'', c_encryptedMessage = ''ciphertext'',
     c_checkInIntervalHours = 8760, c_senderPubkey = ''S'', c_signature = ''sig'',
     c_timestamp = 1000 \<rparr>"

definition s_fallback :: store where
  "s_fallback = fst (create_route emptyStore 1000 True True None ''w1'' ''n1'' year_req)"

text \<open>
  The store after the create request of \<open>S\<close> for \<open>alice\<close> (interval of one hour), handled
  at instant 1000 while the upload to the blob store throws.
\<close>

definition s_local :: store where
  "s_local = fst (create_route emptyStore 1000 True True None ''w1'' ''n1'' alice_req)"

definition blob_store :: "string \<Rightarrow> string option" where
  "blob_store t = (if t = ''tx1'' then Some ''ciphertext'' else None)"

section \<open>Facts about the store and the key builders\<close>

lemma sessionShareKey_inject [simp]:
  "sessionShareKey sid g = sessionShareKey sid g' \<longleftrightarrow> g = g'"
  by (simp add: sessionShareKey_def)

lemma deleteKey_absent: "absent s k \<Longrightarrow> deleteKey s k = s"
  by (cases s) (simp add: absent_def deleteKey_def fun_upd_idem)

lemma shares_deleteKey: "shares (deleteKey s k) k' = (if k' = k then None else shares s k')"
  by (simp add: deleteKey_def)

lemma configs_deleteKey: "configs (deleteKey s k) k' = (if k' = k then None else configs s k')"
  by (simp add: deleteKey_def)

lemma shares_fold_deleteKey:
  "shares (fold (\<lambda>g st. deleteKey st (f g)) ps s) k =
     (if k \<in> f ` set ps then None else shares s k)"
  by (induction ps arbitrary: s) (auto simp: deleteKey_def)

section \<open>Recovery: distribution and revocation\<close>

lemma shares_fold_storeShare_other:
  "p \<notin> pubkey ` set gs \<Longrightarrow>
   shares (fold (storeShare now ownr) gs s) (shareKey p ownr) = shares s (shareKey p ownr)"
  by (induction gs arbitrary: s) (auto simp: storeShare_def shareKey_def)

lemma shares_fold_storeShare_last:
  "shares (fold (storeShare now ownr) gs s) (shareKey p ownr) =
     (if filter (\<lambda>x. pubkey x = p) gs = [] then shares s (shareKey p ownr)
      else Some \<lparr> gs_encryptedShare = encryptedShare (last (filter (\<lambda>x. pubkey x = p) gs)),
                  gs_ownerPubkey = ownr,
                  gs_shareIndex = shareIndex (last (filter (\<lambda>x. pubkey x = p) gs)),
                  gs_createdAt = now \<rparr>)"
proof (induction gs arbitrary: s)
  case Nil
  then show ?case by simp
next
  case (Cons a gs)
  have here: "shares (storeShare now ownr a s) (shareKey p ownr) =
      (if pubkey a = p
       then Some \<lparr> gs_encryptedShare = encryptedShare a, gs_ownerPubkey = ownr,
                   gs_shareIndex = shareIndex a, gs_createdAt = now \<rparr>
       else shares s (shareKey p ownr))"
    by (auto simp: storeShare_def shareKey_def)
  show ?case
    by (simp add: Cons.IH here)
qed

lemma filter_pubkey_distinct:
  "distinct (map pubkey gs) \<Longrightarrow> g \<in> set gs \<Longrightarrow> filter (\<lambda>x. pubkey x = pubkey g) gs = [g]"
proof (induction gs)
  case Nil
  then show ?case by simp
next
  case (Cons a gs)
  show ?case
  proof (cases "g = a")
    case True
    from Cons.prems(1) have "pubkey a \<notin> set (map pubkey gs)" by simp
    then have "filter (\<lambda>x. pubkey x = pubkey a) gs = []"
      by (induction gs) auto
    with True show ?thesis by simp
  next
    case False
    with Cons.prems have "g \<in> set gs" by simp
    then have "pubkey g \<in> set (map pubkey gs)" by simp
    with Cons.prems(1) have "pubkey a \<noteq> pubkey g" by auto
    with Cons \<open>g \<in> set gs\<close> show ?thesis by simp
  qed
qed

lemma configs_fold_storeShare:
  "configs (fold (storeShare now ownr) gs s) = configs s"
  by (induction gs arbitrary: s) (auto simp: storeShare_def)

lemma getRecoveryConfig_distributeShares:
  "ownr \<noteq> [] \<Longrightarrow>
   getRecoveryConfig (distributeShares s now ownr t gs) ownr =
     Some \<lparr> cfg_ownerPubkey = ownr, cfg_threshold = t,
            cfg_guardianPubkeys = map pubkey gs, cfg_createdAt = now \<rparr>"
  by (simp add: getRecoveryConfig_def distributeShares_def Let_def configs_fold_storeShare)

lemma revokeShares_clears:
  assumes "getRecoveryConfig s ownr = Some cfg"
  shows "getRecoveryConfig (revokeShares s ownr) ownr = None"
    and "g \<in> set (cfg_guardianPubkeys cfg) \<Longrightarrow>
         getShareForGuardian (revokeShares s ownr) g ownr = None"
  using assms
  by (simp_all add: revokeShares_def Let_def getShareForGuardian_def
      shares_deleteKey shares_fold_deleteKey)
    (simp add: getRecoveryConfig_def configs_deleteKey)

lemma distribute_route_accepts:
  assumes "d_senderPubkey req \<noteq> []" and "2 \<le> d_threshold req"
    and "d_threshold req \<le> int (length (d_guardians req))"
    and "length (d_guardians req) \<le> 10"
    and "d_signature req \<noteq> []" and "d_timestamp req \<noteq> 0"
  shows "distribute_route s now True req =
           (distributeShares (revokeShares s (d_senderPubkey req)) now (d_senderPubkey req)
              (d_threshold req) (d_guardians req),
            Ok200 \<lparr> guardianCount = length (d_guardians req), db_threshold = d_threshold req \<rparr>)"
  using assms by (simp add: distribute_route_def Let_def)

text \<open>
  C7.  A distribute request that the route accepts, followed by a signed revoke of the
  same owner: both answer 200, afterwards the owner has no recovery config and none of
  the guardians of the request holds a share for the owner.  A signed revoke for an owner
  under whose config key the store holds nothing leaves the store as it is and answers 200.
\<close>

theorem C7_distribute_then_revoke:
  assumes "d_senderPubkey dreq = ownr" and "ownr \<noteq> []"
    and "2 \<le> d_threshold dreq" and "d_threshold dreq \<le> int (length (d_guardians dreq))"
    and "length (d_guardians dreq) \<le> 10"
    and "d_signature dreq \<noteq> []" and "d_timestamp dreq \<noteq> 0"
    and "r_senderPubkey rreq = ownr" and "r_signature rreq \<noteq> []" and "r_timestamp rreq \<noteq> 0"
  shows "(\<exists>s1 body s2.
            distribute_route s now True dreq = (s1, Ok200 body) \<and>
            revoke_route s1 True rreq = (s2, Ok200 ()) \<and>
            getRecoveryConfig s2 ownr = None \<and>
            (\<forall>g \<in> set (d_guardians dreq). getShareForGuardian s2 (pubkey g) ownr = None))
         \<and> (absent s (configKey ownr) \<longrightarrow> revoke_route s True rreq = (s, Ok200 ()))"
proof -
  let ?s1 = "distributeShares (revokeShares s ownr) now ownr (d_threshold dreq) (d_guardians dreq)"
  let ?cfg = "\<lparr> cfg_ownerPubkey = ownr, cfg_threshold = d_threshold dreq,
            cfg_guardianPubkeys = map pubkey (d_guardians dreq), cfg_createdAt = now \<rparr>"
  have cfg: "getRecoveryConfig ?s1 ownr = Some ?cfg"
    using assms(2) by (rule getRecoveryConfig_distributeShares)
  have d: "distribute_route s now True dreq =
             (?s1, Ok200 \<lparr> guardianCount = length (d_guardians dreq), db_threshold = d_threshold dreq \<rparr>)"
    using assms distribute_route_accepts[of dreq s now] by simp
  have r: "revoke_route ?s1 True rreq = (revokeShares ?s1 ownr, Ok200 ())"
    using assms by (simp add: revoke_route_def)
  have c1: "getRecoveryConfig (revokeShares ?s1 ownr) ownr = None"
    using cfg by (rule revokeShares_clears(1))
  have c2: "\<forall>g \<in> set (d_guardians dreq).
              getShareForGuardian (revokeShares ?s1 ownr) (pubkey g) ownr = None"
    using revokeShares_clears(2)[OF cfg] by simp
  have noop: "absent s (configKey ownr) \<longrightarrow> revoke_route s True rreq = (s, Ok200 ())"
    using assms
    by (auto simp: revoke_route_def revokeShares_def getRecoveryConfig_def Let_def deleteKey_absent
        absent_def)
  from d r c1 c2 noop show ?thesis by blast
qed

theorem C7_witness:
  "(\<exists>s1 body s2.
      distribute_route emptyStore 1000 True
        \<lparr> d_senderPubkey = ''O'', d_threshold = 2, d_guardians = three_guardians,
          d_signature = ''sig'', d_timestamp = 1000 \<rparr> = (s1, Ok200 body) \<and>
      revoke_route s1 True
        \<lparr> r_senderPubkey = ''O'', r_signature = ''sig'', r_timestamp = 2000 \<rparr> = (s2, Ok200 ()) \<and>
      getRecoveryConfig s2 ''O'' = None \<and>
      getShareForGuardian s2 ''G1'' ''O'' = None \<and>
      getShareForGuardian s2 ''G2'' ''O'' = None \<and>
      getShareForGuardian s2 ''G3'' ''O'' = None)
   \<and> absent emptyStore (configKey ''O'')
   \<and> revoke_route emptyStore True
        \<lparr> r_senderPubkey = ''O'', r_signature = ''sig'', r_timestamp = 2000 \<rparr>
      = (emptyStore, Ok200 ())"
  using C7_distribute_then_revoke[of
      "\<lparr> d_senderPubkey = ''O'', d_threshold = 2, d_guardians = three_guardians,
         d_signature = ''sig'', d_timestamp = 1000 \<rparr>" "''O''"
      "\<lparr> r_senderPubkey = ''O'', r_signature = ''sig'', r_timestamp = 2000 \<rparr>"
      emptyStore 1000]
  by (simp add: three_guardians_def absent_def emptyStore_def)

text \<open>
  C6 (as amended).  The route does not look at the share indices: a signed distribute
  request with a non-empty sender, a threshold of at least 2, at least as many guardians
  as the threshold and at most ten guardians is answered 200 whatever its
  \<^verbatim>\<open>shareIndex\<close> values are.  For every guardian public key of the request, the share
  record stored under that key and the owner holds the share and the \<^verbatim>\<open>shareIndex\<close>
  of the last entry of the array with that public key, duplicate or out of range as the
  index may be; so when the guardians' public keys are distinct, every guardian's record
  holds the share and the \<^verbatim>\<open>shareIndex\<close> submitted for that guardian.
\<close>

theorem C6_distribute_stores_any_shareIndex:
  assumes "d_senderPubkey req \<noteq> []" and "2 \<le> d_threshold req"
    and "d_threshold req \<le> int (length (d_guardians req))"
    and "length (d_guardians req) \<le> 10"
    and "d_signature req \<noteq> []" and "d_timestamp req \<noteq> 0"
  shows "\<exists>s'. distribute_route s now True req =
             (s', Ok200 \<lparr> guardianCount = length (d_guardians req),
                           db_threshold = d_threshold req \<rparr>) \<and>
           (\<forall>g \<in> set (d_guardians req).
              shares s' (shareKey (pubkey g) (d_senderPubkey req)) =
                Some \<lparr> gs_encryptedShare =
                         encryptedShare (last (filter (\<lambda>x. pubkey x = pubkey g) (d_guardians req))),
                       gs_ownerPubkey = d_senderPubkey req,
                       gs_shareIndex =
                         shareIndex (last (filter (\<lambda>x. pubkey x = pubkey g) (d_guardians req))),
                       gs_createdAt = now \<rparr>) \<and>
           (distinct (map pubkey (d_guardians req)) \<longrightarrow>
              (\<forall>g \<in> set (d_guardians req).
                 shares s' (shareKey (pubkey g) (d_senderPubkey req)) =
                   Some \<lparr> gs_encryptedShare = encryptedShare g,
                          gs_ownerPubkey = d_senderPubkey req,
                          gs_shareIndex = shareIndex g, gs_createdAt = now \<rparr>))"
proof -
  let ?s' = "distributeShares (revokeShares s (d_senderPubkey req)) now (d_senderPubkey req)
               (d_threshold req) (d_guardians req)"
  have route: "distribute_route s now True req =
      (?s', Ok200 \<lparr> guardianCount = length (d_guardians req), db_threshold = d_threshold req \<rparr>)"
    using assms by (simp add: distribute_route_accepts)
  have ne: "filter (\<lambda>x. pubkey x = pubkey g) (d_guardians req) \<noteq> []"
    if "g \<in> set (d_guardians req)" for g
    using that by (auto simp: filter_empty_conv)
  have stored: "shares ?s' (shareKey (pubkey g) (d_senderPubkey req)) =
      Some \<lparr> gs_encryptedShare =
               encryptedShare (last (filter (\<lambda>x. pubkey x = pubkey g) (d_guardians req))),
             gs_ownerPubkey = d_senderPubkey req,
             gs_shareIndex =
               shareIndex (last (filter (\<lambda>x. pubkey x = pubkey g) (d_guardians req))),
             gs_createdAt = now \<rparr>"
    if "g \<in> set (d_guardians req)" for g
    using ne[OF that] by (simp add: distributeShares_def Let_def shares_fold_storeShare_last)
  have own: "shares ?s' (shareKey (pubkey g) (d_senderPubkey req)) =
      Some \<lparr> gs_encryptedShare = encryptedShare g, gs_ownerPubkey = d_senderPubkey req,
             gs_shareIndex = shareIndex g, gs_createdAt = now \<rparr>"
    if "distinct (map pubkey (d_guardians req))" "g \<in> set (d_guardians req)" for g
    using stored[OF that(2)] filter_pubkey_distinct[OF that] by simp
  from route stored own show ?thesis by blast
qed

theorem C6_witness:
  "(\<exists>s'. distribute_route emptyStore 1000 True skewed_req =
          (s', Ok200 \<lparr> guardianCount = 3, db_threshold = 2 \<rparr>) \<and>
        shares s' (shareKey ''G1'' ''O'') =
          Some \<lparr> gs_encryptedShare = ''c1'', gs_ownerPubkey = ''O'', gs_shareIndex = 0,
                 gs_createdAt = 1000 \<rparr> \<and>
        shares s' (shareKey ''G2'' ''O'') =
          Some \<lparr> gs_encryptedShare = ''c2'', gs_ownerPubkey = ''O'', gs_shareIndex = 0,
                 gs_createdAt = 1000 \<rparr> \<and>
        shares s' (shareKey ''G3'' ''O'') =
          Some \<lparr> gs_encryptedShare = ''c3'', gs_ownerPubkey = ''O'', gs_shareIndex = 7,
                 gs_createdAt = 1000 \<rparr>) \<and>
   (\<exists>s'. distribute_route emptyStore 1000 True twin_req =
          (s', Ok200 \<lparr> guardianCount = 2, db_threshold = 2 \<rparr>) \<and>
        shares s' (shareKey ''G1'' ''O'') =
          Some \<lparr> gs_encryptedShare = ''c2'', gs_ownerPubkey = ''O'', gs_shareIndex = 1,
                 gs_createdAt = 1000 \<rparr>)"
  using C6_distribute_stores_any_shareIndex[of skewed_req emptyStore 1000]
    C6_distribute_stores_any_shareIndex[of twin_req emptyStore 1000]
  by (simp add: skewed_req_def skewed_guardians_def twin_req_def numeral_3_eq_3 numeral_2_eq_2)

text \<open>
  The request \<open>skewed_req\<close> carries the share index 0 twice and the index 7 for three
  guardians; the route answers 200 and the three shares are stored.
\<close>

theorem C6_counterexample:
  "http_status (snd (distribute_route emptyStore 1000 True skewed_req)) = 200 \<and>
   \<not> distinct (map shareIndex (d_guardians skewed_req)) \<and>
   1 \<notin> set (map shareIndex (d_guardians skewed_req)) \<and>
   map (\<lambda>g. map_option gs_shareIndex
              (getShareForGuardian (fst (distribute_route emptyStore 1000 True skewed_req))
                 (pubkey g) ''O''))
       (d_guardians skewed_req) = [Some 0, Some 0, Some 7]"
  by (simp add: distribute_route_def skewed_req_def skewed_guardians_def Let_def
      distributeShares_def storeShare_def getShareForGuardian_def shareKey_def)

section \<open>Recovery: the session state machine\<close>

lemma Session_is_ready_unmatched:
  "\<not> includes_str ''Session is ready'' ''not found''"
  "\<not> includes_str ''Session is ready'' ''expired''"
  "\<not> includes_str ''Session is ready'' ''already approved''"
  "\<not> includes_str ''Session is ready'' ''not a valid guardian''"
  by (simp_all add: startsWith_def)

lemma s_requested_store:
  "sessions s_requested = [''recovery:session:sid'' \<mapsto>
      (\<lparr> sessionId = ''sid'', sess_ownerPubkey = ''O'', ephemeralPubkey = ''EP'',
         sess_status = Pending, approvals = 0, sess_threshold = 2,
         sess_guardianPubkeys = [''G1'', ''G2'', ''G3''], sess_createdAt = 2000 \<rparr>, 86402000)]"
  "strs s_requested = Map.empty"
  by (simp_all add: s_requested_def s_distributed_def three_guardians_def distributeShares_def
      storeShare_def getRecoveryConfig_def createSession_def configKey_def sessionKey_def
      SESSION_TTL_def emptyStore_def Let_def)

lemma s_approved1_eval:
  "approveSession s_requested 3000 ''sid'' ''G1'' ''r1'' =
     Inr (s_approved1, \<lparr> approved = True, approvalsReceived = 1, thresholdRequired = 2 \<rparr>)"
  by (simp add: s_approved1_def approveSession_def getSession_def s_requested_store
      getString_def sessionKey_def sessionShareKey_def Let_def setStringWithExpiry_def)

lemma s_approved1_store:
  "sessions s_approved1 = [''recovery:session:sid'' \<mapsto>
      (\<lparr> sessionId = ''sid'', sess_ownerPubkey = ''O'', ephemeralPubkey = ''EP'',
         sess_status = Pending, approvals = 1, sess_threshold = 2,
         sess_guardianPubkeys = [''G1'', ''G2'', ''G3''], sess_createdAt = 2000 \<rparr>, 86402000)]"
  "strs s_approved1 = [''recovery:session:sid:share:G1'' \<mapsto> (Text ''r1'', 86403000)]"
  by (simp_all add: s_approved1_def approveSession_def getSession_def s_requested_store
      getString_def sessionKey_def sessionShareKey_def Let_def setStringWithExpiry_def
      SESSION_TTL_def)

lemma s_approved2_eval:
  "approveSession s_approved1 4000 ''sid'' ''G2'' ''r2'' =
     Inr (s_approved2, \<lparr> approved = True, approvalsReceived = 2, thresholdRequired = 2 \<rparr>)"
  by (simp add: s_approved2_def approveSession_def getSession_def s_approved1_store
      getString_def sessionKey_def sessionShareKey_def Let_def setStringWithExpiry_def)

lemma s_approved2_store:
  "sessions s_approved2 = [''recovery:session:sid'' \<mapsto>
      (\<lparr> sessionId = ''sid'', sess_ownerPubkey = ''O'', ephemeralPubkey = ''EP'',
         sess_status = Ready, approvals = 2, sess_threshold = 2,
         sess_guardianPubkeys = [''G1'', ''G2'', ''G3''], sess_createdAt = 2000 \<rparr>, 86402000)]"
  "strs s_approved2 = [''recovery:session:sid:share:G1'' \<mapsto> (Text ''r1'', 86403000),
                       ''recovery:session:sid:share:G2'' \<mapsto> (Text ''r2'', 86404000)]"
  by (simp_all add: s_approved2_def approveSession_def getSession_def s_approved1_store
      getString_def sessionKey_def sessionShareKey_def Let_def setStringWithExpiry_def
      SESSION_TTL_def)

text \<open>
  C1 (as amended).  For a session created with threshold 2 for three distinct guardians,
  after the first two of them have approved within the 24 hours of the session the
  session is ready, a later signed approve by the third guardian is refused (thrown
  \<^verbatim>\<open>Session is ready\<close>, answered 500) and leaves the store as it is, and the shares
  route returns the two shares of the guardians that approved, in the order of the
  request.
\<close>

theorem C1_third_approval_refused:
  assumes cfg: "getRecoveryConfig s0 ownr = Some cfg" and thr: "cfg_threshold cfg = 2"
    and gs: "set [g1, g2, g3] \<subseteq> set (cfg_guardianPubkeys cfg)"
    and dist: "distinct [g1, g2, g3]"
    and uuid: "uuid \<noteq> []"
    and fresh: "\<forall>g \<in> set [g1, g2, g3]. strs s0 (sessionShareKey uuid g) = None"
    and r: "r1 \<noteq> []" "r2 \<noteq> []"
    and req3: "g3 \<noteq> []" "r3 \<noteq> []" "sg \<noteq> []" "ts \<noteq> 0"
    and times: "t0 \<le> t1" "t0 \<le> t2" "t1 < t0 + 86400000" "t2 < t0 + 86400000"
       "t3 < t0 + 86400000" "t4 < t0 + 86400000"
  shows "\<exists>s1 sess s2 s3.
       createSession s0 t0 uuid ownr eph [g1, g2, g3] = Inr (s1, sess) \<and>
       approveSession s1 t1 uuid g1 r1 =
         Inr (s2, \<lparr> approved = True, approvalsReceived = 1, thresholdRequired = 2 \<rparr>) \<and>
       approveSession s2 t2 uuid g2 r2 =
         Inr (s3, \<lparr> approved = True, approvalsReceived = 2, thresholdRequired = 2 \<rparr>) \<and>
       map_option sess_status (getSession s3 t3 uuid) = Some Ready \<and>
       approve_route s3 t3 True uuid
         \<lparr> a_guardianPubkey = g3, a_reEncryptedShare = r3, a_signature = sg, a_timestamp = ts \<rparr>
         = (s3, Fail 500 ''Failed to approve recovery'') \<and>
       shares_route s3 t4 uuid = Ok200 [(g1, Text r1), (g2, Text r2)]"
proof -
  define sess where "sess = \<lparr> sessionId = uuid, sess_ownerPubkey = ownr, ephemeralPubkey = eph,
       sess_status = Pending, approvals = 0, sess_threshold = 2,
       sess_guardianPubkeys = [g1, g2, g3], sess_createdAt = t0 \<rparr>"
  define ex where "ex = t0 + 86400000"
  define s1 where "s1 = s0\<lparr> sessions := (sessions s0)(sessionKey uuid \<mapsto> (sess, ex)) \<rparr>"
  define s2 where "s2 = s1\<lparr> strs := (strs s0)(sessionShareKey uuid g1 \<mapsto> (Text r1, t1 + 86400000)),
       sessions := (sessions s0)(sessionKey uuid \<mapsto> (sess\<lparr> approvals := 1 \<rparr>, ex)) \<rparr>"
  define s3 where "s3 = s2\<lparr> strs := (strs s2)(sessionShareKey uuid g2 \<mapsto> (Text r2, t2 + 86400000)),
       sessions := (sessions s0)(sessionKey uuid \<mapsto>
          (sess\<lparr> approvals := 2, sess_status := Ready \<rparr>, ex)) \<rparr>"
  have all_valid: "find (\<lambda>g. g \<notin> set (cfg_guardianPubkeys cfg)) [g1, g2, g3] = None"
    using gs by simp
  have created: "createSession s0 t0 uuid ownr eph [g1, g2, g3] = Inr (s1, sess)"
    using cfg thr
    by (simp add: createSession_def s1_def sess_def ex_def SESSION_TTL_def Let_def all_valid
        del: find.simps)
  have read1: "getSession s1 t1 uuid = Some sess"
    using times uuid by (simp add: getSession_def s1_def ex_def sess_def)
  have first: "approveSession s1 t1 uuid g1 r1 =
         Inr (s2, \<lparr> approved = True, approvalsReceived = 1, thresholdRequired = 2 \<rparr>)"
    using fresh by (simp add: approveSession_def read1 getString_def)
      (simp add: sess_def s1_def s2_def setStringWithExpiry_def SESSION_TTL_def Let_def)
  have read2: "getSession s2 t2 uuid = Some (sess\<lparr> approvals := 1 \<rparr>)"
    using times uuid by (simp add: getSession_def s2_def s1_def ex_def sess_def)
  have second: "approveSession s2 t2 uuid g2 r2 =
         Inr (s3, \<lparr> approved = True, approvalsReceived = 2, thresholdRequired = 2 \<rparr>)"
  proof -
    have "strs s2 (sessionShareKey uuid g2) = None"
      using fresh dist by (auto simp: s2_def s1_def)
    then show ?thesis
      by (simp add: approveSession_def read2 getString_def)
        (simp add: sess_def s1_def s2_def s3_def setStringWithExpiry_def SESSION_TTL_def Let_def)
  qed
  have read3: "getSession s3 t uuid = Some (sess\<lparr> approvals := 2, sess_status := Ready \<rparr>)"
    if "t < t0 + 86400000" for t
    using that uuid by (simp add: getSession_def s3_def s2_def s1_def ex_def sess_def)
  have is_ready: "map_option sess_status (getSession s3 t3 uuid) = Some Ready"
    using times by (simp add: read3 sess_def)
  have thrown: "approveSession s3 t3 uuid g3 r3 = Inl ''Session is ready''"
    using times by (simp add: approveSession_def read3 sess_def)
  have third: "approve_route s3 t3 True uuid
         \<lparr> a_guardianPubkey = g3, a_reEncryptedShare = r3, a_signature = sg, a_timestamp = ts \<rparr>
         = (s3, Fail 500 ''Failed to approve recovery'')"
    using req3
    by (simp add: approve_route_def thrown Session_is_ready_unmatched del: includes_str.simps)
  have released: "shares_route s3 t4 uuid = Ok200 [(g1, Text r1), (g2, Text r2)]"
  proof -
    have "strs s3 (sessionShareKey uuid g1) = Some (Text r1, t1 + 86400000)"
      "strs s3 (sessionShareKey uuid g2) = Some (Text r2, t2 + 86400000)"
      "strs s3 (sessionShareKey uuid g3) = None"
      using fresh dist by (auto simp: s3_def s2_def s1_def)
    then show ?thesis
      using times r
      by (simp add: shares_route_def getReleasedShares_def read3 sess_def getString_def)
  qed
  from created first second is_ready third released show ?thesis by blast
qed

theorem C1_witness:
  "\<exists>s1 sess s2 s3.
       createSession s_distributed 2000 ''sid'' ''O'' ''EP'' [''G1'', ''G2'', ''G3''] = Inr (s1, sess) \<and>
       approveSession s1 3000 ''sid'' ''G1'' ''r1'' =
         Inr (s2, \<lparr> approved = True, approvalsReceived = 1, thresholdRequired = 2 \<rparr>) \<and>
       approveSession s2 4000 ''sid'' ''G2'' ''r2'' =
         Inr (s3, \<lparr> approved = True, approvalsReceived = 2, thresholdRequired = 2 \<rparr>) \<and>
       map_option sess_status (getSession s3 5000 ''sid'') = Some Ready \<and>
       approve_route s3 5000 True ''sid''
         \<lparr> a_guardianPubkey = ''G3'', a_reEncryptedShare = ''r3'', a_signature = ''sig'',
           a_timestamp = 5000 \<rparr>
         = (s3, Fail 500 ''Failed to approve recovery'') \<and>
       shares_route s3 6000 ''sid'' = Ok200 [(''G1'', Text ''r1''), (''G2'', Text ''r2'')]"
proof -
  have cfg: "getRecoveryConfig s_distributed ''O'' =
      Some \<lparr> cfg_ownerPubkey = ''O'', cfg_threshold = 2,
             cfg_guardianPubkeys = [''G1'', ''G2'', ''G3''], cfg_createdAt = 1000 \<rparr>"
    by (simp add: s_distributed_def getRecoveryConfig_distributeShares three_guardians_def)
  have fresh: "\<forall>g \<in> set [''G1'', ''G2'', ''G3'']. strs s_distributed (sessionShareKey ''sid'' g) = None"
    by (simp add: s_distributed_def distributeShares_def three_guardians_def storeShare_def
        emptyStore_def Let_def)
  show ?thesis
    by (rule C1_third_approval_refused[OF cfg _ _ _ _ fresh]) simp_all
qed

text \<open>
  In the scenario of the spec, with \<open>G1\<close> and \<open>G2\<close> having approved, the session is
  ready, the approve of \<open>G3\<close> is answered 500, and the shares route returns two shares.
\<close>

theorem C1_counterexample:
  "approveSession s_requested 3000 ''sid'' ''G1'' ''r1'' =
     Inr (s_approved1, \<lparr> approved = True, approvalsReceived = 1, thresholdRequired = 2 \<rparr>) \<and>
   approveSession s_approved1 4000 ''sid'' ''G2'' ''r2'' =
     Inr (s_approved2, \<lparr> approved = True, approvalsReceived = 2, thresholdRequired = 2 \<rparr>) \<and>
   map_option sess_status (getSession s_approved2 5000 ''sid'') = Some Ready \<and>
   approve_route s_approved2 5000 True ''sid''
     \<lparr> a_guardianPubkey = ''G3'', a_reEncryptedShare = ''r3'', a_signature = ''sig'',
       a_timestamp = 5000 \<rparr> = (s_approved2, Fail 500 ''Failed to approve recovery'') \<and>
   shares_route s_approved2 6000 ''sid'' = Ok200 [(''G1'', Text ''r1''), (''G2'', Text ''r2'')]"
  by (simp add: s_approved1_eval s_approved2_eval)
    (simp add: approve_route_def shares_route_def getReleasedShares_def approveSession_def
      getSession_def s_approved2_store getString_def sessionKey_def sessionShareKey_def
      startsWith_def)

text \<open>
  C5.  The session \<open>sid\<close> of \<open>s_requested\<close> is pending and \<open>G4\<close> is not among its
  requested guardians.  The service throws \<^verbatim>\<open>Not a valid guardian for this session\<close>;
  the route looks for the text \<^verbatim>\<open>not a valid guardian\<close> in the message, which starts
  with a capital letter, finds none of its texts, and answers 500 where the claim says 403.
\<close>

theorem C5_unlisted_guardian_gets_500:
  "map_option sess_status (getSession s_requested 3000 ''sid'') = Some Pending \<and>
   ''G4'' \<notin> set [''G1'', ''G2'', ''G3''] \<and>
   approveSession s_requested 3000 ''sid'' ''G4'' ''r4'' =
     Inl ''Not a valid guardian for this session'' \<and>
   \<not> includes_str ''Not a valid guardian for this session'' ''not a valid guardian'' \<and>
   approve_route s_requested 3000 True ''sid''
     \<lparr> a_guardianPubkey = ''G4'', a_reEncryptedShare = ''r4'', a_signature = ''sig'',
       a_timestamp = 3000 \<rparr> = (s_requested, Fail 500 ''Failed to approve recovery'')"
  by (simp add: approve_route_def approveSession_def getSession_def s_requested_store
      sessionKey_def startsWith_def)

section \<open>Facts about the switch store\<close>

lemma switchKey_inject [simp]: "switchKey a = switchKey b \<longleftrightarrow> a = b"
  by (simp add: switchKey_def)

lemma userSwitchesKey_inject [simp]: "userSwitchesKey a = userSwitchesKey b \<longleftrightarrow> a = b"
  by (simp add: userSwitchesKey_def)

lemma userSwitchesKey_not_active [simp]:
  "userSwitchesKey a \<noteq> ACTIVE_SET" "ACTIVE_SET \<noteq> userSwitchesKey a"
  by (simp_all add: userSwitchesKey_def ACTIVE_SET_def)

lemma setHash_fields [simp]:
  "switches (setHash s k u) =
     (switches s)(k \<mapsto> u (case switches s k of None \<Rightarrow> noFields | Some h \<Rightarrow> h))"
  "sets (setHash s k u) = sets s"
  "strs (setHash s k u) = strs s"
  by (simp_all add: setHash_def)

lemma sadd_fields [simp]:
  "switches (sadd s k x) = switches s"
  "strs (sadd s k x) = strs s"
  "set (sets (sadd s k x) k') = (if k' = k then insert x (set (sets s k)) else set (sets s k'))"
  by (auto simp: sadd_def)

lemma srem_fields [simp]:
  "switches (srem s k x) = switches s"
  "strs (srem s k x) = strs s"
  "sets (srem s k x) k' = (if k' = k then removeAll x (sets s k) else sets s k')"
  by (simp_all add: srem_def)

lemma storeMessageBlob_fields [simp]:
  "switches (storeMessageBlob s now k v ttl) = switches s"
  "sets (storeMessageBlob s now k v ttl) = sets s"
  "strs (storeMessageBlob s now k v ttl) = (strs s)(k \<mapsto> (v, now + 1000 * ttl))"
  by (simp_all add: storeMessageBlob_def setStringWithExpiry_def)

lemma getSwitch_cong: "switches s = switches s' \<Longrightarrow> getSwitch s i = getSwitch s' i"
  by (simp add: getSwitch_def getHash_def)

lemma getSwitch_sadd [simp]: "getSwitch (sadd s k x) i = getSwitch s i"
  by (rule getSwitch_cong) simp

lemma getSwitch_srem [simp]: "getSwitch (srem s k x) i = getSwitch s i"
  by (rule getSwitch_cong) simp

lemma getSwitch_storeMessageBlob [simp]: "getSwitch (storeMessageBlob s now k v ttl) i = getSwitch s i"
  by (rule getSwitch_cong) simp

lemma getSwitch_setHash_other [simp]:
  "i \<noteq> j \<Longrightarrow> getSwitch (setHash s (switchKey j) u) i = getSwitch s i"
  by (simp add: getSwitch_def getHash_def)

lemma getSwitch_setHash_same:
  "getSwitch s i = Some sw \<Longrightarrow> switchId (u sw) = switchId sw \<Longrightarrow>
   getSwitch (setHash s (switchKey i) u) i = Some (u sw)"
  by (auto simp: getSwitch_def getHash_def split: option.splits if_splits)

lemma loadSwitches_cong:
  "(\<And>i. i \<in> set ids \<Longrightarrow> getSwitch s i = getSwitch s' i) \<Longrightarrow> loadSwitches s ids = loadSwitches s' ids"
  by (induction ids) (auto split: option.splits)

lemma loadSwitches_keyed:
  "keyed s \<Longrightarrow> x \<in> set (loadSwitches s ids) \<Longrightarrow> \<exists>i \<in> set ids. getSwitch s i = Some x \<and> switchId x = Some i"
  by (induction ids) (auto simp: keyed_def split: option.splits)

section \<open>Cancel\<close>

lemma cancelSwitch_done:
  assumes "getSwitch s sid = Some sw" and "senderPubkey sw = Some pk"
  shows "\<exists>s'. cancelSwitch s sid pk = (s', True) \<and>
           getSwitch s' sid = Some (sw\<lparr> status := Some Cancelled \<rparr>) \<and>
           (\<forall>i. i \<noteq> sid \<longrightarrow> getSwitch s' i = getSwitch s i) \<and>
           smembers s' ACTIVE_SET = removeAll sid (smembers s ACTIVE_SET) \<and>
           smembers s' (userSwitchesKey pk) = removeAll sid (smembers s (userSwitchesKey pk)) \<and>
           strs s' = strs s"
  using assms
  by (simp add: cancelSwitch_def Let_def smembers_def getSwitch_setHash_same)

lemma cancelled_not_listed:
  assumes "keyed s" and "\<forall>i. i \<noteq> sid \<longrightarrow> getSwitch s' i = getSwitch s i"
    and "smembers s' k = removeAll sid (smembers s k)"
    and "x \<in> set (loadSwitches s' (smembers s' k))"
  shows "switchId x \<noteq> Some sid"
proof -
  have "loadSwitches s' (removeAll sid (smembers s k)) = loadSwitches s (removeAll sid (smembers s k))"
    using assms(2) by (intro loadSwitches_cong) auto
  with assms(3,4) have "x \<in> set (loadSwitches s (removeAll sid (smembers s k)))" by simp
  from loadSwitches_keyed[OF assms(1) this] show ?thesis by auto
qed

text \<open>
  C10.  For a signed cancel request: the route answers 404 exactly when the switch record
  is missing or its \<^verbatim>\<open>senderPubkey\<close> is not the signer.  Otherwise, whatever the
  status of the switch is (active, triggered or cancelled), the route answers 200, the
  status is overwritten with cancelled, and the id is removed from the signer's index
  and from the active index, so that the signer's list no longer holds the switch
  (the records of the store being keyed by their ids).
\<close>

theorem C10_cancel_checks_owner_only:
  assumes "q_senderPubkey req \<noteq> []" and "q_signature req \<noteq> []" and "q_timestamp req \<noteq> 0"
  shows "(http_status (snd (cancel_route s True sid req)) = 404 \<longleftrightarrow>
            getSwitch s sid = None \<or>
            (\<exists>sw. getSwitch s sid = Some sw \<and> senderPubkey sw \<noteq> Some (q_senderPubkey req)))
       \<and> (\<forall>sw. getSwitch s sid = Some sw \<and> senderPubkey sw = Some (q_senderPubkey req) \<longrightarrow>
            (\<exists>s'. cancel_route s True sid req = (s', Ok200 ()) \<and>
                  getSwitch s' sid = Some (sw\<lparr> status := Some Cancelled \<rparr>) \<and>
                  sid \<notin> set (smembers s' (userSwitchesKey (q_senderPubkey req))) \<and>
                  sid \<notin> set (smembers s' ACTIVE_SET) \<and>
                  (keyed s \<longrightarrow>
                     (\<forall>x \<in> set (getUserSwitches s' (q_senderPubkey req)). switchId x \<noteq> Some sid))))"
proof (intro conjI allI impI)
  show "(http_status (snd (cancel_route s True sid req)) = 404) =
    (getSwitch s sid = None \<or>
     (\<exists>sw. getSwitch s sid = Some sw \<and> senderPubkey sw \<noteq> Some (q_senderPubkey req)))"
    using assms by (auto simp: cancel_route_def cancelSwitch_def Let_def split: option.splits)
next
  fix sw
  assume a: "getSwitch s sid = Some sw \<and> senderPubkey sw = Some (q_senderPubkey req)"
  then obtain s' where c: "cancelSwitch s sid (q_senderPubkey req) = (s', True)"
    and g: "getSwitch s' sid = Some (sw\<lparr> status := Some Cancelled \<rparr>)"
    and o: "\<forall>i. i \<noteq> sid \<longrightarrow> getSwitch s' i = getSwitch s i"
    and act: "smembers s' ACTIVE_SET = removeAll sid (smembers s ACTIVE_SET)"
    and usr: "smembers s' (userSwitchesKey (q_senderPubkey req)) =
                removeAll sid (smembers s (userSwitchesKey (q_senderPubkey req)))"
    using cancelSwitch_done[of s sid sw "q_senderPubkey req"] by blast
  have r: "cancel_route s True sid req = (s', Ok200 ())"
    using assms c by (simp add: cancel_route_def)
  have l: "keyed s \<longrightarrow> (\<forall>x \<in> set (getUserSwitches s' (q_senderPubkey req)). switchId x \<noteq> Some sid)"
    using cancelled_not_listed[OF _ o usr] by (auto simp: getUserSwitches_def)
  from r g act usr l
  show "\<exists>s'. cancel_route s True sid req = (s', Ok200 ()) \<and>
                  getSwitch s' sid = Some (sw\<lparr> status := Some Cancelled \<rparr>) \<and>
                  sid \<notin> set (smembers s' (userSwitchesKey (q_senderPubkey req))) \<and>
                  sid \<notin> set (smembers s' ACTIVE_SET) \<and>
                  (keyed s \<longrightarrow>
                     (\<forall>x \<in> set (getUserSwitches s' (q_senderPubkey req)). switchId x \<noteq> Some sid))"
    by auto
qed


section \<open>Create\<close>

lemma createSwitch_result:
  "\<exists>s1. createSwitch s now uuid input =
      (s1, \<lparr> switchId = Some uuid, senderPubkey = Some (in_senderPubkey input),
             recipientUsername = Some (in_recipientUsername input),
             arweaveTxId = Some (in_arweaveTxId input),
             intervalHours = Some (in_intervalHours input),
             nextDeadline = Some (now + in_intervalHours input * 60 * 60 * 1000),
             status = Some Active, createdAt = Some now, triggeredAt = None \<rparr>) \<and>
     (uuid \<noteq> [] \<longrightarrow> (\<exists>t. getSwitch s1 uuid =
        Some \<lparr> switchId = Some uuid, senderPubkey = Some (in_senderPubkey input),
             recipientUsername = Some (in_recipientUsername input),
             arweaveTxId = Some (in_arweaveTxId input),
             intervalHours = Some (in_intervalHours input),
             nextDeadline = Some (now + in_intervalHours input * 60 * 60 * 1000),
             status = Some Active, createdAt = Some now, triggeredAt = t \<rparr>)) \<and>
     (\<forall>i. i \<noteq> uuid \<longrightarrow> getSwitch s1 i = getSwitch s i) \<and>
     uuid \<in> set (smembers s1 ACTIVE_SET) \<and>
     uuid \<in> set (smembers s1 (userSwitchesKey (in_senderPubkey input))) \<and>
     strs s1 = strs s"
  by (simp add: createSwitch_def Let_def smembers_def) (simp add: getSwitch_def getHash_def)

lemma keyed_createSwitch: "keyed s \<Longrightarrow> keyed (fst (createSwitch s now uuid input))"
  unfolding keyed_def
proof (intro allI impI)
  fix i sw
  assume k: "\<forall>i sw. getSwitch s i = Some sw \<longrightarrow> switchId sw = Some i"
    and g: "getSwitch (fst (createSwitch s now uuid input)) i = Some sw"
  show "switchId sw = Some i"
  proof (cases "i = uuid")
    case True
    with g show ?thesis
      by (auto simp: createSwitch_def Let_def getSwitch_def getHash_def split: if_splits)
  next
    case False
    with g k createSwitch_result[of s now uuid input] show ?thesis by auto
  qed
qed

lemma create_route_accepts:
  assumes "c_recipientUsername req \<noteq> []" and "c_encryptedMessage req \<noteq> []"
    and "1 \<le> c_checkInIntervalHours req" and "c_checkInIntervalHours req \<le> 8760"
    and "c_senderPubkey req \<noteq> []" and "c_signature req \<noteq> []" and "c_timestamp req \<noteq> 0"
  shows "create_route s now True True upload uuid nonce req =
     (fst (createSwitch
        (case upload of Some t \<Rightarrow> s
         | None \<Rightarrow> storeMessageBlob s now (''dms:local-'' @ nonce)
                     (Text (c_encryptedMessage req)) 31536000)
        now uuid
        \<lparr> in_senderPubkey = c_senderPubkey req, in_recipientUsername = c_recipientUsername req,
          in_arweaveTxId = (case upload of Some t \<Rightarrow> t | None \<Rightarrow> ''local:local-'' @ nonce),
          in_intervalHours = c_checkInIntervalHours req \<rparr>),
      Ok200 \<lparr> cb_switchId = Some uuid,
              cb_nextDeadline = Some (now + c_checkInIntervalHours req * 60 * 60 * 1000) \<rparr>)"
  using assms
  by (cases upload) (simp_all add: create_route_def Let_def createSwitch_def split: prod.splits)

lemma keyed_storeMessageBlob [simp]: "keyed (storeMessageBlob s now k v ttl) = keyed s"
  by (simp add: keyed_def)

lemma create_route_result:
  assumes "c_recipientUsername req \<noteq> []" and "c_encryptedMessage req \<noteq> []"
    and "1 \<le> c_checkInIntervalHours req" and "c_checkInIntervalHours req \<le> 8760"
    and "c_senderPubkey req \<noteq> []" and "c_signature req \<noteq> []" and "c_timestamp req \<noteq> 0"
    and "uuid \<noteq> []"
  shows "\<exists>s1 t. create_route s now True True upload uuid nonce req =
            (s1, Ok200 \<lparr> cb_switchId = Some uuid,
                cb_nextDeadline = Some (now + c_checkInIntervalHours req * 60 * 60 * 1000) \<rparr>) \<and>
          getSwitch s1 uuid =
            Some \<lparr> switchId = Some uuid, senderPubkey = Some (c_senderPubkey req),
                   recipientUsername = Some (c_recipientUsername req),
                   arweaveTxId = Some (case upload of Some tx \<Rightarrow> tx
                                       | None \<Rightarrow> ''local:local-'' @ nonce),
                   intervalHours = Some (c_checkInIntervalHours req),
                   nextDeadline = Some (now + c_checkInIntervalHours req * 60 * 60 * 1000),
                   status = Some Active, createdAt = Some now, triggeredAt = t \<rparr> \<and>
          (\<forall>i. i \<noteq> uuid \<longrightarrow> getSwitch s1 i = getSwitch s i) \<and>
          uuid \<in> set (smembers s1 ACTIVE_SET) \<and>
          uuid \<in> set (smembers s1 (userSwitchesKey (c_senderPubkey req))) \<and>
          strs s1 = (case upload of Some tx \<Rightarrow> strs s
                     | None \<Rightarrow> (strs s)(''dms:local-'' @ nonce \<mapsto>
                         (Text (c_encryptedMessage req), now + 31536000000))) \<and>
          (keyed s \<longrightarrow> keyed s1)"
proof -
  define s0 where "s0 = (case upload of Some t \<Rightarrow> s
         | None \<Rightarrow> storeMessageBlob s now (''dms:local-'' @ nonce)
                     (Text (c_encryptedMessage req)) 31536000)"
  define input where "input = \<lparr> in_senderPubkey = c_senderPubkey req,
          in_recipientUsername = c_recipientUsername req,
          in_arweaveTxId = (case upload of Some t \<Rightarrow> t | None \<Rightarrow> ''local:local-'' @ nonce),
          in_intervalHours = c_checkInIntervalHours req \<rparr>"
  define s1 where "s1 = fst (createSwitch s0 now uuid input)"
  have cr: "create_route s now True True upload uuid nonce req =
     (s1, Ok200 \<lparr> cb_switchId = Some uuid,
              cb_nextDeadline = Some (now + c_checkInIntervalHours req * 60 * 60 * 1000) \<rparr>)"
    unfolding s1_def s0_def input_def using assms(1-7) by (rule create_route_accepts)
  have g0: "getSwitch s0 i = getSwitch s i" for i
    by (cases upload) (simp_all add: s0_def)
  have st0: "strs s0 = (case upload of Some tx \<Rightarrow> strs s
                     | None \<Rightarrow> (strs s)(''dms:local-'' @ nonce \<mapsto>
                         (Text (c_encryptedMessage req), now + 31536000000)))"
    by (cases upload) (simp_all add: s0_def)
  have k0: "keyed s0 = keyed s"
    by (cases upload) (simp_all add: s0_def)
  have k1: "keyed s \<longrightarrow> keyed s1"
    unfolding s1_def using keyed_createSwitch[of s0 now uuid input] k0 by simp
  from createSwitch_result[of s0 now uuid input] \<open>uuid \<noteq> []\<close>
  obtain t where "getSwitch s1 uuid =
        Some \<lparr> switchId = Some uuid, senderPubkey = Some (in_senderPubkey input),
             recipientUsername = Some (in_recipientUsername input),
             arweaveTxId = Some (in_arweaveTxId input),
             intervalHours = Some (in_intervalHours input),
             nextDeadline = Some (now + in_intervalHours input * 60 * 60 * 1000),
             status = Some Active, createdAt = Some now, triggeredAt = t \<rparr>"
    and "\<forall>i. i \<noteq> uuid \<longrightarrow> getSwitch s1 i = getSwitch s0 i"
    and "uuid \<in> set (smembers s1 ACTIVE_SET)"
    and "uuid \<in> set (smembers s1 (userSwitchesKey (in_senderPubkey input)))"
    and "strs s1 = strs s0"
    unfolding s1_def by fastforce
  then show ?thesis
    using cr g0 st0 k1 by (simp add: input_def)
qed

text \<open>
  C8 (as amended).  A create request that the route accepts, returning the switch id,
  followed by a signed cancel of that id by the same owner: the cancel is answered 200,
  the switch record has status cancelled, its id is in neither the active index nor the
  owner's index, and the owner's list, which is read from the owner's index, does not
  hold the switch at all.
\<close>

theorem C8_create_then_cancel:
  assumes "c_recipientUsername creq \<noteq> []" and "c_encryptedMessage creq \<noteq> []"
    and "1 \<le> c_checkInIntervalHours creq" and "c_checkInIntervalHours creq \<le> 8760"
    and "c_senderPubkey creq \<noteq> []" and "c_signature creq \<noteq> []" and "c_timestamp creq \<noteq> 0"
    and "q_senderPubkey qreq = c_senderPubkey creq" and "q_signature qreq \<noteq> []"
    and "q_timestamp qreq \<noteq> 0"
    and "uuid \<noteq> []" and "keyed s"
  shows "\<exists>s1 d s2 items.
           create_route s now True True upload uuid nonce creq =
             (s1, Ok200 \<lparr> cb_switchId = Some uuid, cb_nextDeadline = Some d \<rparr>) \<and>
           cancel_route s1 True uuid qreq = (s2, Ok200 ()) \<and>
           map_option status (getSwitch s2 uuid) = Some (Some Cancelled) \<and>
           uuid \<notin> set (smembers s2 ACTIVE_SET) \<and>
           uuid \<notin> set (smembers s2 (userSwitchesKey (c_senderPubkey creq))) \<and>
           list_route s2 (c_senderPubkey creq) = Ok200 items \<and>
           (\<forall>it \<in> set items. li_switchId it \<noteq> Some uuid)"
proof -
  from create_route_result[OF assms(1-7) \<open>uuid \<noteq> []\<close>, of s now upload nonce] \<open>keyed s\<close>
  obtain s1 sw where cr: "create_route s now True True upload uuid nonce creq =
            (s1, Ok200 \<lparr> cb_switchId = Some uuid,
                cb_nextDeadline = Some (now + c_checkInIntervalHours creq * 60 * 60 * 1000) \<rparr>)"
    and g1: "getSwitch s1 uuid = Some sw" and sn: "senderPubkey sw = Some (c_senderPubkey creq)"
    and k1: "keyed s1"
    by fastforce
  from sn assms(8) have sn': "senderPubkey sw = Some (q_senderPubkey qreq)" by simp
  from cancelSwitch_done[OF g1 sn'] obtain s2 where
    c: "cancelSwitch s1 uuid (q_senderPubkey qreq) = (s2, True)"
    and g2: "getSwitch s2 uuid = Some (sw\<lparr> status := Some Cancelled \<rparr>)"
    and o: "\<forall>i. i \<noteq> uuid \<longrightarrow> getSwitch s2 i = getSwitch s1 i"
    and act: "smembers s2 ACTIVE_SET = removeAll uuid (smembers s1 ACTIVE_SET)"
    and usr: "smembers s2 (userSwitchesKey (q_senderPubkey qreq)) =
                removeAll uuid (smembers s1 (userSwitchesKey (q_senderPubkey qreq)))"
    by blast
  have r: "cancel_route s1 True uuid qreq = (s2, Ok200 ())"
    using assms c by (simp add: cancel_route_def)
  have l: "\<forall>x \<in> set (getUserSwitches s2 (c_senderPubkey creq)). switchId x \<noteq> Some uuid"
    using cancelled_not_listed[OF k1 o usr] assms(8) by (auto simp: getUserSwitches_def)
  have li: "\<exists>items. list_route s2 (c_senderPubkey creq) = Ok200 items \<and>
              (\<forall>it \<in> set items. li_switchId it \<noteq> Some uuid)"
    using l by (auto simp: list_route_def)
  have st: "map_option status (getSwitch s2 uuid) = Some (Some Cancelled)"
    using g2 by simp
  have a2: "uuid \<notin> set (smembers s2 ACTIVE_SET)" using act by simp
  have u2: "uuid \<notin> set (smembers s2 (userSwitchesKey (c_senderPubkey creq)))"
    using usr assms(8) by simp
  from cr r st a2 u2 li show ?thesis by blast
qed

section \<open>The concrete switch of \<open>S\<close>\<close>

lemma keyed_emptyStore: "keyed emptyStore"
  by (simp add: keyed_def getSwitch_def getHash_def emptyStore_def)

lemma s_created_store:
  "switches s_created = [switchKey ''w1'' \<mapsto>
      \<lparr> switchId = Some ''w1'', senderPubkey = Some ''S'', recipientUsername = Some ''alice'',
        arweaveTxId = Some ''tx1'', intervalHours = Some 1, nextDeadline = Some 3601000,
        status = Some Active, createdAt = Some 1000, triggeredAt = None \<rparr>]"
  "sets s_created = (\<lambda>k. [])(userSwitchesKey ''S'' := [''w1''], ACTIVE_SET := [''w1''])"
  "strs s_created = Map.empty"
  by (simp_all add: s_created_def createSwitch_def alice_input_def Let_def sadd_def
      emptyStore_def noFields_def)

lemma s_created_by_route_eq: "s_created_by_route = s_created"
  by (simp add: s_created_by_route_def s_created_def create_route_def alice_req_def
      alice_input_def split: prod.splits)

lemma s_triggered_store:
  "switches s_triggered = [switchKey ''w1'' \<mapsto>
      \<lparr> switchId = Some ''w1'', senderPubkey = Some ''S'', recipientUsername = Some ''alice'',
        arweaveTxId = Some ''tx1'', intervalHours = Some 1, nextDeadline = Some 3601000,
        status = Some Triggered, createdAt = Some 1000, triggeredAt = Some 7200000 \<rparr>]"
  "sets s_triggered = (\<lambda>k. [])(userSwitchesKey ''S'' := [''w1''], ACTIVE_SET := [])"
  by (simp_all add: s_triggered_def markTriggered_def Let_def s_created_store srem_def)

lemma getSwitch_s_created:
  "getSwitch s_created i =
     (if i = ''w1'' then Some
        \<lparr> switchId = Some ''w1'', senderPubkey = Some ''S'', recipientUsername = Some ''alice'',
          arweaveTxId = Some ''tx1'', intervalHours = Some 1, nextDeadline = Some 3601000,
          status = Some Active, createdAt = Some 1000, triggeredAt = None \<rparr>
      else None)"
  by (simp add: getSwitch_def getHash_def s_created_store)

lemma getSwitch_s_triggered:
  "getSwitch s_triggered i =
     (if i = ''w1'' then Some
        \<lparr> switchId = Some ''w1'', senderPubkey = Some ''S'', recipientUsername = Some ''alice'',
          arweaveTxId = Some ''tx1'', intervalHours = Some 1, nextDeadline = Some 3601000,
          status = Some Triggered, createdAt = Some 1000, triggeredAt = Some 7200000 \<rparr>
      else None)"
  by (simp add: getSwitch_def getHash_def s_triggered_store)

lemma keyed_s_created: "keyed s_created"
  by (simp add: keyed_def getSwitch_s_created)

lemma keyed_s_triggered: "keyed s_triggered"
  by (simp add: keyed_def getSwitch_s_triggered)

theorem C10_witness:
  "map_option status (getSwitch s_triggered ''w1'') = Some (Some Triggered) \<and>
   (\<exists>s'. cancel_route s_triggered True ''w1'' S_req = (s', Ok200 ()) \<and>
          map_option status (getSwitch s' ''w1'') = Some (Some Cancelled) \<and>
          ''w1'' \<notin> set (smembers s' (userSwitchesKey ''S'')) \<and>
          ''w1'' \<notin> set (smembers s' ACTIVE_SET) \<and>
          (\<forall>x \<in> set (getUserSwitches s' ''S''). switchId x \<noteq> Some ''w1'')) \<and>
   http_status (snd (cancel_route s_triggered True ''w1'' T_req)) = 404 \<and>
   http_status (snd (cancel_route s_triggered True ''w2'' S_req)) = 404"
  using C10_cancel_checks_owner_only[of S_req s_triggered "''w1''"]
    C10_cancel_checks_owner_only[of T_req s_triggered "''w1''"]
    C10_cancel_checks_owner_only[of S_req s_triggered "''w2''"]
    keyed_s_triggered
  by (simp add: S_req_def T_req_def getSwitch_s_triggered) fastforce

theorem C8_witness:
  "\<exists>s1 d s2 items.
     create_route emptyStore 1000 True True (Some ''tx1'') ''w1'' ''n1'' alice_req =
       (s1, Ok200 \<lparr> cb_switchId = Some ''w1'', cb_nextDeadline = Some d \<rparr>) \<and>
     cancel_route s1 True ''w1'' S_req = (s2, Ok200 ()) \<and>
     map_option status (getSwitch s2 ''w1'') = Some (Some Cancelled) \<and>
     ''w1'' \<notin> set (smembers s2 ACTIVE_SET) \<and>
     ''w1'' \<notin> set (smembers s2 (userSwitchesKey ''S'')) \<and>
     list_route s2 ''S'' = Ok200 items \<and>
     (\<forall>it \<in> set items. li_switchId it \<noteq> Some ''w1'')"
  using C8_create_then_cancel[of alice_req S_req "''w1''" emptyStore 1000 "Some ''tx1''" "''n1''"]
    keyed_emptyStore
  by (simp add: alice_req_def S_req_def)

text \<open>
  After the create and the cancel of the switch \<open>w1\<close> of \<open>S\<close>, the record has status
  cancelled and the list of \<open>S\<close> is empty: nothing of the switch is left in it.
\<close>

theorem C8_counterexample:
  "create_route emptyStore 1000 True True (Some ''tx1'') ''w1'' ''n1'' alice_req =
     (s_created_by_route, Ok200 \<lparr> cb_switchId = Some ''w1'', cb_nextDeadline = Some 3601000 \<rparr>) \<and>
   cancel_route s_created_by_route True ''w1'' S_req = (s_cancelled, Ok200 ()) \<and>
   map_option status (getSwitch s_cancelled ''w1'') = Some (Some Cancelled) \<and>
   list_route s_cancelled ''S'' = Ok200 []"
proof -
  have c: "create_route emptyStore 1000 True True (Some ''tx1'') ''w1'' ''n1'' alice_req =
     (s_created_by_route, Ok200 \<lparr> cb_switchId = Some ''w1'', cb_nextDeadline = Some 3601000 \<rparr>)"
    by (simp add: s_created_by_route_def create_route_def alice_req_def createSwitch_def Let_def
        split: prod.splits)
  have d: "cancel_route s_created True ''w1'' S_req =
      (fst (cancel_route s_created True ''w1'' S_req), Ok200 ())"
    by (simp add: cancel_route_def S_req_def cancelSwitch_def getSwitch_s_created Let_def)
  have sw: "switches (fst (cancel_route s_created True ''w1'' S_req)) = [switchKey ''w1'' \<mapsto>
      \<lparr> switchId = Some ''w1'', senderPubkey = Some ''S'', recipientUsername = Some ''alice'',
        arweaveTxId = Some ''tx1'', intervalHours = Some 1, nextDeadline = Some 3601000,
        status = Some Cancelled, createdAt = Some 1000, triggeredAt = None \<rparr>]"
    and st: "sets (fst (cancel_route s_created True ''w1'' S_req)) (userSwitchesKey ''S'') = []"
    by (simp_all add: cancel_route_def S_req_def cancelSwitch_def getSwitch_s_created Let_def
        s_created_store)
  have g: "map_option status (getSwitch s_cancelled ''w1'') = Some (Some Cancelled)"
    by (simp add: s_cancelled_def s_created_by_route_eq getSwitch_def getHash_def sw)
  have l: "list_route s_cancelled ''S'' = Ok200 []"
    by (simp add: s_cancelled_def s_created_by_route_eq list_route_def getUserSwitches_def
        smembers_def st)
  from c d g l show ?thesis
    by (simp add: s_cancelled_def s_created_by_route_eq)
qed

section \<open>The index invariant\<close>

lemma getSwitch_setHash_keep:
  assumes "\<And>h. switchId (u h) = switchId h"
  shows "getSwitch (setHash s (switchKey j) u) i =
           (if i = j then map_option u (getSwitch s j) else getSwitch s i)"
  using assms[of noFields] assms
  by (auto simp: getSwitch_def getHash_def noFields_def split: option.splits)

lemma I5_amended_cong:
  assumes "I5_amended s" and "sets s' = sets s"
    and "\<And>i. map_option index_view (getSwitch s' i) = map_option index_view (getSwitch s i)"
  shows "I5_amended s'"
  unfolding I5_amended_def
proof (intro allI impI)
  fix i sw
  assume g: "getSwitch s' i = Some sw"
  with assms(3)[of i] obtain sw0 where g0: "getSwitch s i = Some sw0"
    and v: "senderPubkey sw0 = senderPubkey sw" "status sw0 = status sw"
    by (cases "getSwitch s i") (auto simp: index_view_def)
  from assms(1) g0 v assms(2)
  show "(status sw = Some Active \<longrightarrow> inActiveIndex s' i \<and> inUserIndex s' sw i) \<and>
        (status sw = Some Cancelled \<longrightarrow> \<not> inActiveIndex s' i \<and> \<not> inUserIndex s' sw i) \<and>
        (status sw = Some Triggered \<longrightarrow> \<not> inActiveIndex s' i)"
    unfolding I5_amended_def inActiveIndex_def inUserIndex_def smembers_def by metis
qed

lemma I5_amended_createSwitch:
  assumes "I5_amended s"
  shows "I5_amended (fst (createSwitch s now uuid input))"
  unfolding I5_amended_def
proof (intro allI impI)
  fix i sw
  let ?s1 = "fst (createSwitch s now uuid input)"
  assume g: "getSwitch ?s1 i = Some sw"
  have sets1: "set (sets ?s1 k) = (if k = ACTIVE_SET \<or> k = userSwitchesKey (in_senderPubkey input)
                 then insert uuid (set (sets s k)) else set (sets s k))" for k
    by (auto simp: createSwitch_def Let_def)
  show "(status sw = Some Active \<longrightarrow> inActiveIndex ?s1 i \<and> inUserIndex ?s1 sw i) \<and>
        (status sw = Some Cancelled \<longrightarrow> \<not> inActiveIndex ?s1 i \<and> \<not> inUserIndex ?s1 sw i) \<and>
        (status sw = Some Triggered \<longrightarrow> \<not> inActiveIndex ?s1 i)"
  proof (cases "i = uuid")
    case True
    with g have "status sw = Some Active" "senderPubkey sw = Some (in_senderPubkey input)"
      by (auto simp: createSwitch_def Let_def getSwitch_def getHash_def split: if_splits)
    then show ?thesis
      using True by (simp add: inActiveIndex_def inUserIndex_def smembers_def sets1 text_of_def)
  next
    case False
    with g have g0: "getSwitch s i = Some sw"
      by (simp add: createSwitch_def Let_def getSwitch_def getHash_def)
    with assms have
      "(status sw = Some Active \<longrightarrow> inActiveIndex s i \<and> inUserIndex s sw i) \<and>
       (status sw = Some Cancelled \<longrightarrow> \<not> inActiveIndex s i \<and> \<not> inUserIndex s sw i) \<and>
       (status sw = Some Triggered \<longrightarrow> \<not> inActiveIndex s i)"
      unfolding I5_amended_def by blast
    with False show ?thesis
      by (auto simp add: inActiveIndex_def inUserIndex_def smembers_def sets1)
  qed
qed

lemma I5_amended_cancelSwitch:
  assumes "I5_amended s"
  shows "I5_amended (fst (cancelSwitch s sid pk))"
proof (cases "\<exists>sw. getSwitch s sid = Some sw \<and> senderPubkey sw = Some pk")
  case False
  then have "cancelSwitch s sid pk = (s, False)"
    by (auto simp: cancelSwitch_def split: option.splits)
  with assms show ?thesis by simp
next
  case True
  then obtain sw0 where g0: "getSwitch s sid = Some sw0" and sn: "senderPubkey sw0 = Some pk"
    by blast
  let ?s' = "fst (cancelSwitch s sid pk)"
  have gs: "getSwitch ?s' i = (if i = sid then Some (sw0\<lparr> status := Some Cancelled \<rparr>) else getSwitch s i)" for i
    using g0 sn by (simp add: cancelSwitch_def Let_def getSwitch_setHash_keep)
  have sets': "sets ?s' k = (if k = ACTIVE_SET \<or> k = userSwitchesKey pk
                 then removeAll sid (sets s k) else sets s k)" for k
    using g0 sn by (auto simp: cancelSwitch_def Let_def)
  show ?thesis
    unfolding I5_amended_def
  proof (intro allI impI)
    fix i sw
    assume g: "getSwitch ?s' i = Some sw"
    show "(status sw = Some Active \<longrightarrow> inActiveIndex ?s' i \<and> inUserIndex ?s' sw i) \<and>
        (status sw = Some Cancelled \<longrightarrow> \<not> inActiveIndex ?s' i \<and> \<not> inUserIndex ?s' sw i) \<and>
        (status sw = Some Triggered \<longrightarrow> \<not> inActiveIndex ?s' i)"
    proof (cases "i = sid")
      case True
      with g gs have "sw = sw0\<lparr> status := Some Cancelled \<rparr>" by simp
      then show ?thesis
        using True sn by (simp add: inActiveIndex_def inUserIndex_def smembers_def sets' text_of_def)
    next
      case False
      with g gs have "getSwitch s i = Some sw" by simp
      with assms have
        "(status sw = Some Active \<longrightarrow> inActiveIndex s i \<and> inUserIndex s sw i) \<and>
         (status sw = Some Cancelled \<longrightarrow> \<not> inActiveIndex s i \<and> \<not> inUserIndex s sw i) \<and>
         (status sw = Some Triggered \<longrightarrow> \<not> inActiveIndex s i)"
        unfolding I5_amended_def by blast
      with False show ?thesis
        by (auto simp add: inActiveIndex_def inUserIndex_def smembers_def sets')
    qed
  qed
qed

lemma I5_amended_markTriggered:
  assumes "I5_amended s"
  shows "I5_amended (markTriggered s now sid)"
proof -
  let ?s' = "markTriggered s now sid"
  have gs: "getSwitch ?s' i =
      (if i = sid
       then map_option (\<lambda>d. d\<lparr> status := Some Triggered, triggeredAt := Some now \<rparr>) (getSwitch s sid)
       else getSwitch s i)" for i
    by (simp add: markTriggered_def Let_def getSwitch_setHash_keep)
  have sets': "sets ?s' k = (if k = ACTIVE_SET then removeAll sid (sets s k) else sets s k)" for k
    by (simp add: markTriggered_def Let_def)
  show ?thesis
    unfolding I5_amended_def
  proof (intro allI impI)
    fix i sw
    assume g: "getSwitch ?s' i = Some sw"
    show "(status sw = Some Active \<longrightarrow> inActiveIndex ?s' i \<and> inUserIndex ?s' sw i) \<and>
        (status sw = Some Cancelled \<longrightarrow> \<not> inActiveIndex ?s' i \<and> \<not> inUserIndex ?s' sw i) \<and>
        (status sw = Some Triggered \<longrightarrow> \<not> inActiveIndex ?s' i)"
    proof (cases "i = sid")
      case True
      with g gs have "status sw = Some Triggered" by auto
      then show ?thesis
        using True by (simp add: inActiveIndex_def smembers_def sets')
    next
      case False
      with g gs have "getSwitch s i = Some sw" by simp
      with assms have
        "(status sw = Some Active \<longrightarrow> inActiveIndex s i \<and> inUserIndex s sw i) \<and>
         (status sw = Some Cancelled \<longrightarrow> \<not> inActiveIndex s i \<and> \<not> inUserIndex s sw i) \<and>
         (status sw = Some Triggered \<longrightarrow> \<not> inActiveIndex s i)"
        unfolding I5_amended_def by blast
      with False show ?thesis
        by (auto simp add: inActiveIndex_def inUserIndex_def smembers_def sets')
    qed
  qed
qed

lemma refreshLoop_frame:
  "sets (fst (refreshLoop now sws s l)) = sets s \<and>
   strs (fst (refreshLoop now sws s l)) = strs s \<and>
   (\<forall>i. map_option index_view (getSwitch (fst (refreshLoop now sws s l)) i) =
        map_option index_view (getSwitch s i))"
proof (induction sws arbitrary: s l)
  case Nil
  then show ?case by simp
next
  case (Cons sw sws)
  show ?case
  proof (cases "intervalHours sw")
    case None
    then show ?thesis by simp
  next
    case (Some h)
    then show ?thesis
      using Cons.IH
      by (simp add: Let_def getSwitch_setHash_keep index_view_def option.map_comp comp_def)
  qed
qed

lemma I5_amended_refreshDeadlines:
  assumes "I5_amended s"
  shows "I5_amended (fst (refreshDeadlines s now pk))"
proof -
  let ?act = "filter (\<lambda>sw. status sw = Some Active) (getUserSwitches s pk)"
  have "fst (refreshDeadlines s now pk) = fst (refreshLoop now ?act s None)"
    by (simp add: refreshDeadlines_def Let_def split: prod.splits sum.splits)
  then show ?thesis
    using I5_amended_cong[OF assms] refreshLoop_frame[of now ?act s None] by simp
qed

lemma overdueLoop_frame:
  "switches (fst (overdueLoop now ids s)) = switches s \<and>
   strs (fst (overdueLoop now ids s)) = strs s \<and>
   (\<forall>k. k \<noteq> ACTIVE_SET \<longrightarrow> sets (fst (overdueLoop now ids s)) k = sets s k) \<and>
   set (sets (fst (overdueLoop now ids s)) ACTIVE_SET) \<subseteq> set (sets s ACTIVE_SET) \<and>
   (\<forall>i sw. getSwitch s i = Some sw \<and> status sw = Some Active \<and> i \<in> set (sets s ACTIVE_SET)
      \<longrightarrow> i \<in> set (sets (fst (overdueLoop now ids s)) ACTIVE_SET))"
proof (induction ids arbitrary: s)
  case Nil
  then show ?case by simp
next
  case (Cons a ids)
  have drop: ?case if "getSwitch s a = None \<or> (\<exists>sw. getSwitch s a = Some sw \<and> status sw \<noteq> Some Active)"
  proof -
    have e: "overdueLoop now (a # ids) s = overdueLoop now ids (srem s ACTIVE_SET a)"
      using that by (auto split: option.splits)
    have ne: "i \<noteq> a" if "getSwitch s i = Some sw" "status sw = Some Active" for i sw
      using that \<open>getSwitch s a = None \<or> (\<exists>sw. getSwitch s a = Some sw \<and> status sw \<noteq> Some Active)\<close>
      by auto
    have g: "getSwitch (srem s ACTIVE_SET a) i = getSwitch s i" for i by simp
    note ih = Cons.IH[of "srem s ACTIVE_SET a", unfolded g]
    show ?thesis
      unfolding e
    proof (intro conjI allI impI)
      show "switches (fst (overdueLoop now ids (srem s ACTIVE_SET a))) = switches s"
        using ih by simp
      show "strs (fst (overdueLoop now ids (srem s ACTIVE_SET a))) = strs s"
        using ih by simp
      show "sets (fst (overdueLoop now ids (srem s ACTIVE_SET a))) k = sets s k"
        if "k \<noteq> ACTIVE_SET" for k
        using ih that by simp
      show "set (sets (fst (overdueLoop now ids (srem s ACTIVE_SET a))) ACTIVE_SET)
              \<subseteq> set (sets s ACTIVE_SET)"
        using ih by auto
      show "i \<in> set (sets (fst (overdueLoop now ids (srem s ACTIVE_SET a))) ACTIVE_SET)"
        if "getSwitch s i = Some sw \<and> status sw = Some Active \<and> i \<in> set (sets s ACTIVE_SET)"
        for i sw
      proof -
        from that ne have "i \<noteq> a" by blast
        with that have "i \<in> set (sets (srem s ACTIVE_SET a) ACTIVE_SET)" by simp
        with that ih show ?thesis by blast
      qed
    qed
  qed
  have keep: ?case if "getSwitch s a = Some sw" "status sw = Some Active" for sw
  proof -
    have e: "fst (overdueLoop now (a # ids) s) = fst (overdueLoop now ids s)"
      using that by (simp split: prod.splits option.splits)
    show ?thesis
      unfolding e using Cons.IH[of s] by simp
  qed
  from drop keep show ?case by (cases "getSwitch s a") auto
qed

lemma I5_amended_getOverdueSwitches:
  assumes "I5_amended s"
  shows "I5_amended (fst (getOverdueSwitches s now))"
proof -
  let ?s' = "fst (overdueLoop now (smembers s ACTIVE_SET) s)"
  note f = overdueLoop_frame[of now "smembers s ACTIVE_SET" s]
  have g: "getSwitch ?s' i = getSwitch s i" for i
    using f by (intro getSwitch_cong) simp
  have "I5_amended ?s'"
    unfolding I5_amended_def
  proof (intro allI impI)
    fix i sw
    assume "getSwitch ?s' i = Some sw"
    then have g0: "getSwitch s i = Some sw" by (simp add: g)
    have u: "inUserIndex ?s' sw i = inUserIndex s sw i"
      using f by (simp add: inUserIndex_def smembers_def)
    from assms g0 u f
    show "(status sw = Some Active \<longrightarrow> inActiveIndex ?s' i \<and> inUserIndex ?s' sw i) \<and>
        (status sw = Some Cancelled \<longrightarrow> \<not> inActiveIndex ?s' i \<and> \<not> inUserIndex ?s' sw i) \<and>
        (status sw = Some Triggered \<longrightarrow> \<not> inActiveIndex ?s' i)"
      unfolding I5_amended_def inActiveIndex_def smembers_def by blast
  qed
  then show ?thesis by (simp add: getOverdueSwitches_def)
qed

lemma I5_amended_storeMessageBlob:
  "I5_amended (storeMessageBlob s now k v ttl) = I5_amended s"
  by (simp add: I5_amended_def inActiveIndex_def inUserIndex_def smembers_def)

lemma I5_amended_processSwitch:
  assumes "I5_amended (fst st)"
  shows "I5_amended (fst (processSwitch gua arw now sw st))"
  using assms
  by (auto simp: processSwitch_def Let_def I5_amended_markTriggered I5_amended_storeMessageBlob
      split: option.splits)

lemma I5_amended_fold_processSwitch:
  "I5_amended (fst st) \<Longrightarrow> I5_amended (fst (fold (processSwitch gua arw now) sws st))"
  by (induction sws arbitrary: st) (simp_all add: I5_amended_processSwitch)

lemma I5_amended_process_route:
  assumes "I5_amended s"
  shows "I5_amended (fst (process_route s now hdr secret gua arw))"
proof -
  obtain s1 overdue where o: "getOverdueSwitches s now = (s1, overdue)"
    by (cases "getOverdueSwitches s now")
  with I5_amended_getOverdueSwitches[OF assms, of now] have i1: "I5_amended s1" by simp
  then have "I5_amended (fst (fold (processSwitch gua arw now) overdue
                (s1, \<lparr> processed = 0, errors = [], triggeredLog = [] \<rparr>)))"
    by (intro I5_amended_fold_processSwitch) simp
  with i1 assms o show ?thesis
    by (auto simp: process_route_def Let_def split: prod.splits)
qed

text \<open>
  C3 (as amended).  Every operation of the service keeps the invariant that an active
  switch is in the active index and in its owner's index, that a cancelled switch is in
  neither, and that a triggered switch is not in the active index: create, check-in,
  cancel, \<^verbatim>\<open>markTriggered\<close>, the clean-up of \<^verbatim>\<open>getOverdueSwitches\<close> and the
  whole sweep.
\<close>

theorem C3_operations_keep_amended_invariant:
  assumes "I5_amended s"
  shows "I5_amended (fst (createSwitch s now uuid input)) \<and>
         I5_amended (fst (refreshDeadlines s now pk)) \<and>
         I5_amended (fst (cancelSwitch s sid pk)) \<and>
         I5_amended (markTriggered s now sid) \<and>
         I5_amended (fst (getOverdueSwitches s now)) \<and>
         I5_amended (fst (process_route s now hdr secret gua arw))"
  using assms
  by (simp add: I5_amended_createSwitch I5_amended_refreshDeadlines I5_amended_cancelSwitch
      I5_amended_markTriggered I5_amended_getOverdueSwitches I5_amended_process_route)

lemma I5_amended_s_created: "I5_amended s_created"
  by (simp add: I5_amended_def getSwitch_s_created inActiveIndex_def inUserIndex_def
      smembers_def s_created_store text_of_def)

theorem C3_witness:
  "I5_amended s_created \<and>
   map_option status (getSwitch s_created ''w1'') = Some (Some Active) \<and>
   I5_amended (fst (createSwitch s_created 2000 ''w2'' alice_input)) \<and>
   I5_amended (fst (refreshDeadlines s_created 2000 ''S'')) \<and>
   I5_amended (fst (cancelSwitch s_created ''w1'' ''S'')) \<and>
   I5_amended (markTriggered s_created 7200000 ''w1'') \<and>
   I5_amended (fst (getOverdueSwitches s_created 7200000)) \<and>
   I5_amended (fst (process_route s_created 7200000 (Some ''secret'') ''secret''
                      (\<lambda>u. True) (\<lambda>t. Some ''ciphertext'')))"
  using C3_operations_keep_amended_invariant[OF I5_amended_s_created]
  by (simp add: I5_amended_s_created getSwitch_s_created)

text \<open>
  The switch \<open>w1\<close> of \<open>S\<close>, active after its creation, is in both indices; after
  \<^verbatim>\<open>markTriggered\<close> it has status triggered and is still in the index of \<open>S\<close>.
\<close>

theorem C3_counterexample:
  "I5_as_claimed s_created \<and>
   map_option status (getSwitch (markTriggered s_created 7200000 ''w1'') ''w1'')
     = Some (Some Triggered) \<and>
   ''w1'' \<in> set (smembers (markTriggered s_created 7200000 ''w1'') (userSwitchesKey ''S'')) \<and>
   \<not> I5_as_claimed (markTriggered s_created 7200000 ''w1'')"
proof -
  have a: "I5_as_claimed s_created"
    by (simp add: I5_as_claimed_def getSwitch_s_created inActiveIndex_def inUserIndex_def
        smembers_def s_created_store text_of_def)
  have g: "getSwitch s_triggered ''w1'' = Some
        \<lparr> switchId = Some ''w1'', senderPubkey = Some ''S'', recipientUsername = Some ''alice'',
          arweaveTxId = Some ''tx1'', intervalHours = Some 1, nextDeadline = Some 3601000,
          status = Some Triggered, createdAt = Some 1000, triggeredAt = Some 7200000 \<rparr>"
    by (simp add: getSwitch_s_triggered)
  have u: "''w1'' \<in> set (smembers s_triggered (userSwitchesKey ''S''))"
    by (simp add: smembers_def s_triggered_store)
  have n: "\<not> I5_as_claimed s_triggered"
  proof
    assume "I5_as_claimed s_triggered"
    with g have "\<not> inUserIndex s_triggered
        \<lparr> switchId = Some ''w1'', senderPubkey = Some ''S'', recipientUsername = Some ''alice'',
          arweaveTxId = Some ''tx1'', intervalHours = Some 1, nextDeadline = Some 3601000,
          status = Some Triggered, createdAt = Some 1000, triggeredAt = Some 7200000 \<rparr> ''w1''"
      unfolding I5_as_claimed_def by fastforce
    with u show False by (simp add: inUserIndex_def text_of_def)
  qed
  from a g u n show ?thesis by (simp add: s_triggered_def)
qed



section \<open>The calendar\<close>

text \<open>
  The year that \<open>yearFromTime\<close> gives is the one whose days hold the day of the
  instant, and the years 0 to 9999 are those of the instants from
  \<^verbatim>\<open>0000-01-01T00:00:00.000Z\<close> to \<^verbatim>\<open>9999-12-31T23:59:59.999Z\<close>.
\<close>

lemma div_bounds:
  fixes x :: int
  assumes "0 < k"
  shows "k * (x div k) \<le> x" and "x < k * (x div k) + k"
proof -
  have "x = k * (x div k) + x mod k" by simp
  moreover have "0 \<le> x mod k" "x mod k < k" using assms by simp_all
  ultimately show "k * (x div k) \<le> x" and "x < k * (x div k) + k" by linarith+
qed

lemma dayFromYear_bounds:
  "146097 * y - 287811697 \<le> 400 * dayFromYear y"
  "400 * dayFromYear y \<le> 146097 * y - 287810497"
proof -
  define a where "a = (y - 1969) div 4"
  define b where "b = (y - 1901) div 100"
  define c where "c = (y - 1601) div 400"
  have a: "4 * a \<le> y - 1969" "y - 1969 < 4 * a + 4"
    unfolding a_def by (rule div_bounds; simp)+
  have b: "100 * b \<le> y - 1901" "y - 1901 < 100 * b + 100"
    unfolding b_def by (rule div_bounds; simp)+
  have c: "400 * c \<le> y - 1601" "y - 1601 < 400 * c + 400"
    unfolding c_def by (rule div_bounds; simp)+
  define A where "A = 400 * a"
  define B where "B = 400 * b"
  define C where "C = 400 * c"
  have A: "A \<le> 100 * y - 196900" "100 * y - 197300 < A"
    using a unfolding A_def by linarith+
  have B: "B \<le> 4 * y - 7604" "4 * y - 8004 < B"
    using b unfolding B_def by linarith+
  have C: "C \<le> y - 1601" "y - 2001 < C"
    using c unfolding C_def by linarith+
  have d: "400 * dayFromYear y = 146000 * y - 287620000 + A - B + C"
    by (simp add: dayFromYear_def a_def b_def c_def A_def B_def C_def algebra_simps)
  show "146097 * y - 287811697 \<le> 400 * dayFromYear y"
    unfolding d using A B C by linarith
  show "400 * dayFromYear y \<le> 146097 * y - 287810497"
    unfolding d using A B C by linarith
qed

lemma yearFromTime_spec:
  "dayFromYear (yearFromTime t) \<le> t div 86400000 \<and>
   t div 86400000 < dayFromYear (yearFromTime t + 1)"
proof -
  define d where "d = t div 86400000"
  define e where "e = (400 * d) div 146097"
  have e: "146097 * e \<le> 400 * d" "400 * d < 146097 * e + 146097"
    unfolding e_def by (rule div_bounds; simp)+
  have y: "yearFromTime t =
      (if dayFromYear (e + 1971) \<le> d then e + 1971
       else if d < dayFromYear (e + 1970) then e + 1969 else e + 1970)"
    by (simp add: yearFromTime_def Let_def d_def e_def add.commute)
  define u where "u = dayFromYear (e + 1972)"
  define l where "l = dayFromYear (e + 1969)"
  define E where "E = 146097 * e"
  define D where "D = 400 * d"
  have "146097 * (e + 1972) - 287811697 \<le> 400 * u"
    unfolding u_def by (rule dayFromYear_bounds)
  then have "E + 291587 \<le> 400 * u"
    by (simp add: E_def algebra_simps)
  moreover have "E \<le> D" "D < E + 146097" using e by (simp_all add: E_def D_def)
  ultimately have "D < 400 * u" by linarith
  then have up: "d < u" by (simp add: D_def)
  have "400 * l \<le> 146097 * (e + 1969) - 287810497"
    unfolding l_def by (rule dayFromYear_bounds)
  then have "400 * l \<le> E - 145504"
    by (simp add: E_def algebra_simps)
  with \<open>E \<le> D\<close> have "400 * l \<le> D" by linarith
  then have lo: "l \<le> d" by (simp add: D_def)
  have "dayFromYear (yearFromTime t) \<le> d \<and> d < dayFromYear (yearFromTime t + 1)"
    unfolding y using up lo by (auto simp: u_def l_def add.commute)
  then show ?thesis by (simp add: d_def)
qed

lemma dayFromYear_step: "dayFromYear y < dayFromYear (y + 1)"
proof -
  define a where "a = (y - 1969) div 4"
  define a' where "a' = (y + 1 - 1969) div 4"
  define b where "b = (y - 1901) div 100"
  define b' where "b' = (y + 1 - 1901) div 100"
  define c where "c = (y - 1601) div 400"
  define c' where "c' = (y + 1 - 1601) div 400"
  have a: "a \<le> a'"
    unfolding a_def a'_def by (rule zdiv_mono1) simp_all
  have c: "c \<le> c'"
    unfolding c_def c'_def by (rule zdiv_mono1) simp_all
  have "100 * b' \<le> y + 1 - 1901"
    unfolding b'_def by (rule div_bounds) simp
  moreover have "y - 1901 < 100 * b + 100"
    unfolding b_def by (rule div_bounds) simp
  ultimately have b: "b' \<le> b + 1"
    by linarith
  have "365 * (y - 1970) + a - b + c < 365 * (y + 1 - 1970) + a' - b' + c'"
    using a b c by (simp add: algebra_simps)
  then show ?thesis
    unfolding dayFromYear_def a_def a'_def b_def b'_def c_def c'_def .
qed

lemma dayFromYear_mono: "y \<le> y' \<Longrightarrow> dayFromYear y \<le> dayFromYear y'"
proof (induction y' rule: int_ge_induct)
  case base
  then show ?case by simp
next
  case (step i)
  with dayFromYear_step[of i] show ?case by simp
qed

lemma yearFromTime_four_digits:
  "0 \<le> yearFromTime t \<and> yearFromTime t \<le> 9999 \<longleftrightarrow>
     - 62167219200000 \<le> t \<and> t < 253402300800000"
proof -
  define d where "d = t div 86400000"
  define y where "y = yearFromTime t"
  have s: "dayFromYear y \<le> d" "d < dayFromYear (y + 1)"
    using yearFromTime_spec[of t] by (simp_all add: d_def y_def)
  have d0: "dayFromYear 0 = - 719528" and d1: "dayFromYear 10000 = 2932897"
    by (simp_all add: dayFromYear_def)
  have t: "86400000 * d \<le> t" "t < 86400000 * d + 86400000"
    unfolding d_def by (rule div_bounds; simp)+
  have r: "- 62167219200000 \<le> t \<and> t < 253402300800000 \<longleftrightarrow> - 719528 \<le> d \<and> d < 2932897"
    using t by linarith
  have "0 \<le> y \<and> y \<le> 9999 \<longleftrightarrow> - 719528 \<le> d \<and> d < 2932897"
  proof
    assume "0 \<le> y \<and> y \<le> 9999"
    then have "dayFromYear 0 \<le> dayFromYear y" "dayFromYear (y + 1) \<le> dayFromYear 10000"
      by (simp_all add: dayFromYear_mono)
    with s show "- 719528 \<le> d \<and> d < 2932897" by (simp add: d0 d1)
  next
    assume b: "- 719528 \<le> d \<and> d < 2932897"
    have "0 \<le> y"
    proof (rule ccontr)
      assume "\<not> 0 \<le> y"
      then have "dayFromYear (y + 1) \<le> dayFromYear 0" by (simp add: dayFromYear_mono)
      with s b show False by (simp add: d0)
    qed
    moreover have "y \<le> 9999"
    proof (rule ccontr)
      assume "\<not> y \<le> 9999"
      then have "dayFromYear 10000 \<le> dayFromYear y" by (simp add: dayFromYear_mono)
      with s b show False by (simp add: d1)
    qed
    ultimately show "0 \<le> y \<and> y \<le> 9999" ..
  qed
  with r show ?thesis by (simp add: y_def)
qed

section \<open>Check-in\<close>




text \<open>
  The order of the texts at some instants: the first millisecond of the year 10000 is
  below the last of the year 9999 and below every instant before the year 0; the last
  millisecond of the year -1 is below the last of the year -2, and below the first of the
  year 0; within the year -1, and within the years 0 to 9999, the earlier instant is the
  lesser.
\<close>

lemma isoLess_examples:
  "isoLess 253402300800000 253402300799999"
  "isoLess 253402300800000 (- 62167219200001)"
  "isoLess (- 62167219200001) (- 62198755200001)"
  "\<not> isoLess (- 62198755200001) (- 62167219200001)"
  "isoLess (- 62167219200001) (- 62167219200000)"
  "isoLess (- 62167219200002) (- 62167219200001)"
  "isoLess (- 62167219200000) 253402300799999"
  "\<not> isoLess 253402300799999 253402300800000"
  by (simp_all add: isoLess_def isoClass_def yearFromTime_def dayFromYear_def Let_def)









lemma getSwitch_Some_iff:
  "getSwitch s i = Some sw \<longleftrightarrow>
     switches s (switchKey i) = Some sw \<and> (\<exists>t. switchId sw = Some t \<and> t \<noteq> [])"
  by (auto simp: getSwitch_def getHash_def split: option.splits if_splits)



lemma s_two_store:
  "switches s_two = [switchKey ''w1'' \<mapsto>
      \<lparr> switchId = Some ''w1'', senderPubkey = Some ''S'', recipientUsername = Some ''alice'',
        arweaveTxId = Some ''tx1'', intervalHours = Some 1, nextDeadline = Some 3601000,
        status = Some Active, createdAt = Some 1000, triggeredAt = None \<rparr>,
     switchKey ''w2'' \<mapsto>
      \<lparr> switchId = Some ''w2'', senderPubkey = Some ''S'', recipientUsername = Some ''bob'',
        arweaveTxId = Some ''tx2'', intervalHours = Some 5, nextDeadline = Some 18002000,
        status = Some Active, createdAt = Some 2000, triggeredAt = None \<rparr>]"
  "sets s_two (userSwitchesKey ''S'') = [''w1'', ''w2'']"
  by (simp_all add: s_two_def createSwitch_def bob_input_def Let_def sadd_def
      s_created_store noFields_def)

lemma getSwitch_s_two:
  "getSwitch s_two i =
     (if i = ''w2'' then Some
        \<lparr> switchId = Some ''w2'', senderPubkey = Some ''S'', recipientUsername = Some ''bob'',
          arweaveTxId = Some ''tx2'', intervalHours = Some 5, nextDeadline = Some 18002000,
          status = Some Active, createdAt = Some 2000, triggeredAt = None \<rparr>
      else if i = ''w1'' then Some
        \<lparr> switchId = Some ''w1'', senderPubkey = Some ''S'', recipientUsername = Some ''alice'',
          arweaveTxId = Some ''tx1'', intervalHours = Some 1, nextDeadline = Some 3601000,
          status = Some Active, createdAt = Some 1000, triggeredAt = None \<rparr>
      else None)"
  by (simp add: getSwitch_def getHash_def s_two_store)


lemma getUserSwitches_s_two:
  "getUserSwitches s_two ''S'' =
     [\<lparr> switchId = Some ''w1'', senderPubkey = Some ''S'', recipientUsername = Some ''alice'',
        arweaveTxId = Some ''tx1'', intervalHours = Some 1, nextDeadline = Some 3601000,
        status = Some Active, createdAt = Some 1000, triggeredAt = None \<rparr>,
      \<lparr> switchId = Some ''w2'', senderPubkey = Some ''S'', recipientUsername = Some ''bob'',
        arweaveTxId = Some ''tx2'', intervalHours = Some 5, nextDeadline = Some 18002000,
        status = Some Active, createdAt = Some 2000, triggeredAt = None \<rparr>]"
  by (simp add: getUserSwitches_def smembers_def s_two_store getSwitch_s_two)








text \<open>
  A check-in at an instant less than an hour before the last time value of a
  \<^verbatim>\<open>Date\<close>: the new deadline of \<open>w1\<close> is no time value, \<^verbatim>\<open>toISOString\<close> throws, and
  the route answers 500 with the store as it was.
\<close>

lemma checkin_route_invalid_date:
  "checkin_route s_two 8639999999999000 True S_req = (s_two, Fail 500 ''Failed to check in'')"
  by (simp add: checkin_route_def S_req_def refreshDeadlines_def getUserSwitches_s_two Let_def
      validTime_def)



section \<open>The sweep\<close>

lemma releaseKey_inject [simp]: "releaseKey a = releaseKey b \<longleftrightarrow> a = b"
  by (simp add: releaseKey_def)

lemma overdueLoop_result:
  "set (snd (overdueLoop now ids s)) =
     {sw. \<exists>i \<in> set ids. getSwitch s i = Some sw \<and> status sw = Some Active \<and>
          (\<exists>d. nextDeadline sw = Some d \<and> d < now)}"
proof (induction ids arbitrary: s)
  case Nil
  then show ?case by simp
next
  case (Cons a ids)
  have g: "getSwitch (srem s ACTIVE_SET a) i = getSwitch s i" for i by simp
  show ?case
  proof (cases "getSwitch s a")
    case None
    then show ?thesis using Cons.IH[of "srem s ACTIVE_SET a"] by (auto simp: g)
  next
    case (Some sw)
    show ?thesis
    proof (cases "status sw = Some Active")
      case False
      with Some show ?thesis using Cons.IH[of "srem s ACTIVE_SET a"] by (auto simp: g)
    next
      case True
      with Some show ?thesis using Cons.IH[of s]
        by (auto split: prod.splits option.splits)
    qed
  qed
qed

lemma processSwitch_skip:
  assumes "\<not> (gua (recipientUsername sw) \<and>
             (\<exists>tx p. arweaveTxId sw = Some tx \<and> fetchPayload (fst st) now arw tx = Some p \<and> truthy p))"
  shows "fst (processSwitch gua arw now sw st) = fst st"
    and "processed (snd (processSwitch gua arw now sw st)) = processed (snd st)"
    and "triggeredLog (snd (processSwitch gua arw now sw st)) = triggeredLog (snd st)"
  using assms by (auto simp: processSwitch_def Let_def split: option.splits)

lemma processSwitch_release:
  assumes "gua (recipientUsername sw)" and "arweaveTxId sw = Some tx"
    and "fetchPayload (fst st) now arw tx = Some p" and "truthy p"
  shows "fst (processSwitch gua arw now sw st) =
           markTriggered
             (storeMessageBlob (fst st) now (releaseKey (text_of (switchId sw)))
                (ReleaseJson (text_of (switchId sw)) (senderPubkey sw) (recipientUsername sw) p now)
                7776000)
             now (text_of (switchId sw))"
    and "processed (snd (processSwitch gua arw now sw st)) = processed (snd st) + 1"
    and "triggeredLog (snd (processSwitch gua arw now sw st)) =
           triggeredLog (snd st) @ [text_of (switchId sw)]"
  using assms by (simp_all add: processSwitch_def Let_def releaseKey_def)

lemma markTriggered_fields:
  "switches (markTriggered s now i) =
     (switches s)(switchKey i \<mapsto>
        (case switches s (switchKey i) of None \<Rightarrow> noFields | Some h \<Rightarrow> h)
          \<lparr> status := Some Triggered, triggeredAt := Some now \<rparr>)"
  "sets (markTriggered s now i) k = (if k = ACTIVE_SET then removeAll i (sets s k) else sets s k)"
  "strs (markTriggered s now i) = strs s"
  by (simp_all add: markTriggered_def Let_def)

lemma sweep_inv_step:
  assumes inv: "sweep_inv now overdue st" and mem: "sw \<in> set overdue"
  shows "sweep_inv now overdue (processSwitch gua arw now sw st)"
proof (cases "gua (recipientUsername sw) \<and>
             (\<exists>tx p. arweaveTxId sw = Some tx \<and> fetchPayload (fst st) now arw tx = Some p \<and> truthy p)")
  case False
  from processSwitch_skip[of gua sw st now arw, OF False] inv show ?thesis
    by (simp add: sweep_inv_def)
next
  case True
  then obtain tx p where ok: "gua (recipientUsername sw)" "arweaveTxId sw = Some tx"
    "fetchPayload (fst st) now arw tx = Some p" "truthy p"
    by blast
  from inv mem obtain i0 h0 where i0: "switchId sw = Some i0" "i0 \<noteq> []"
    "switches (fst st) (switchKey i0) = Some h0" "switchId h0 = Some i0"
    unfolding sweep_inv_def by blast
  have t: "text_of (switchId sw) = i0" using i0 by (simp add: text_of_def)
  define s' where "s' = fst (processSwitch gua arw now sw st)"
  define acc' where "acc' = snd (processSwitch gua arw now sw st)"
  note r = processSwitch_release[of gua sw tx st now arw p, OF ok, unfolded t, folded s'_def acc'_def]
  have sw': "switches s' k = (if k = switchKey i0
       then Some (h0\<lparr> status := Some Triggered, triggeredAt := Some now \<rparr>)
       else switches (fst st) k)" for k
    using i0 by (simp add: r markTriggered_fields)
  have act': "sets s' ACTIVE_SET = removeAll i0 (sets (fst st) ACTIVE_SET)"
    by (simp add: r markTriggered_fields)
  have strs': "strs s' k = (if k = releaseKey i0
       then Some (ReleaseJson i0 (senderPubkey sw) (recipientUsername sw) p now, now + 7776000000)
       else strs (fst st) k)" for k
    by (simp add: r markTriggered_fields)
  have c1: "processed acc' = length (triggeredLog acc')"
    using inv by (simp add: r sweep_inv_def)
  have c2: "\<forall>x \<in> set overdue. \<exists>i h. switchId x = Some i \<and> i \<noteq> [] \<and>
         switches s' (switchKey i) = Some h \<and> switchId h = Some i"
  proof
    fix x assume "x \<in> set overdue"
    with inv obtain i h where "switchId x = Some i" "i \<noteq> []"
      "switches (fst st) (switchKey i) = Some h" "switchId h = Some i"
      unfolding sweep_inv_def by blast
    with i0 show "\<exists>i h. switchId x = Some i \<and> i \<noteq> [] \<and>
         switches s' (switchKey i) = Some h \<and> switchId h = Some i"
      by (cases "i = i0") (auto simp: sw')
  qed
  have c3: "(\<exists>h. switches s' (switchKey i) = Some h \<and> status h = Some Triggered \<and>
               triggeredAt h = Some now) \<and>
         i \<notin> set (smembers s' ACTIVE_SET) \<and>
         (\<exists>x \<in> set overdue. \<exists>payload. switchId x = Some i \<and> truthy payload \<and>
            strs s' (releaseKey i) =
              Some (ReleaseJson i (senderPubkey x) (recipientUsername x) payload now,
                    now + 7776000000))"
    if "i \<in> set (triggeredLog acc')" for i
  proof (cases "i = i0")
    case True
    have "\<exists>x \<in> set overdue. \<exists>payload. switchId x = Some i \<and> truthy payload \<and>
            strs s' (releaseKey i) =
              Some (ReleaseJson i (senderPubkey x) (recipientUsername x) payload now,
                    now + 7776000000)"
      using mem i0 ok(4) True by (intro bexI[of _ sw] exI[of _ p]) (simp_all add: strs')
    then show ?thesis using True by (simp add: sw' act' smembers_def)
  next
    case False
    with that have "i \<in> set (triggeredLog (snd st))" by (simp add: r)
    with inv have old: "(\<exists>h. switches (fst st) (switchKey i) = Some h \<and> status h = Some Triggered \<and>
               triggeredAt h = Some now) \<and>
         i \<notin> set (smembers (fst st) ACTIVE_SET) \<and>
         (\<exists>x \<in> set overdue. \<exists>payload. switchId x = Some i \<and> truthy payload \<and>
            strs (fst st) (releaseKey i) =
              Some (ReleaseJson i (senderPubkey x) (recipientUsername x) payload now,
                    now + 7776000000))"
      unfolding sweep_inv_def by blast
    with False show ?thesis by (simp add: sw' act' strs' smembers_def)
  qed
  from c1 c2 c3 show ?thesis
    unfolding sweep_inv_def s'_def acc'_def by blast
qed

lemma sweep_inv_fold:
  "sweep_inv now overdue st \<Longrightarrow> set sws \<subseteq> set overdue \<Longrightarrow>
   sweep_inv now overdue (fold (processSwitch gua arw now) sws st)"
  by (induction sws arbitrary: st) (simp_all add: sweep_inv_step)


lemma getOverdueSwitches_result:
  "\<exists>s1 overdue. getOverdueSwitches s now = (s1, overdue) \<and>
     switches s1 = switches s \<and> strs s1 = strs s \<and>
     (\<forall>k. k \<noteq> ACTIVE_SET \<longrightarrow> sets s1 k = sets s k) \<and>
     set (sets s1 ACTIVE_SET) \<subseteq> set (sets s ACTIVE_SET) \<and>
     set overdue =
       {sw. \<exists>i \<in> set (smembers s ACTIVE_SET). getSwitch s i = Some sw \<and>
            status sw = Some Active \<and> (\<exists>d. nextDeadline sw = Some d \<and> d < now)}"
  using overdueLoop_frame[of now "smembers s ACTIVE_SET" s]
    overdueLoop_result[of now "smembers s ACTIVE_SET" s]
  by (simp add: getOverdueSwitches_def prod_eq_iff)

lemma sweep_inv_start:
  assumes "keyed s" and "switches s1 = switches s"
    and "\<forall>sw \<in> set overdue. \<exists>i. getSwitch s i = Some sw"
  shows "sweep_inv now overdue (s1, \<lparr> processed = 0, errors = [], triggeredLog = [] \<rparr>)"
  unfolding sweep_inv_def
proof (intro conjI ballI)
  fix sw assume "sw \<in> set overdue"
  with assms(3) obtain i where g: "getSwitch s i = Some sw" by blast
  with assms(1) have "switchId sw = Some i" by (simp add: keyed_def)
  moreover from g have "switches s (switchKey i) = Some sw" "i \<noteq> []"
    using \<open>switchId sw = Some i\<close> by (auto simp: getSwitch_Some_iff)
  ultimately show "\<exists>i h. switchId sw = Some i \<and> i \<noteq> [] \<and>
         switches (fst (s1, \<lparr> processed = 0, errors = [], triggeredLog = [] \<rparr>)) (switchKey i) = Some h \<and>
         switchId h = Some i"
    using assms(2) by auto
qed simp_all

lemma releaseKey_startsWith [simp]: "startsWith (releaseKey i) ''dms:release:''"
  by (simp add: releaseKey_def startsWith_def)

lemma processSwitch_strs:
  "strs (fst (processSwitch gua arw now sw st)) k = strs (fst st) k \<or>
   k = releaseKey (text_of (switchId sw))"
  by (auto simp: processSwitch_def Let_def releaseKey_def markTriggered_fields split: option.splits)

lemma processSwitch_log_grows:
  "set (triggeredLog (snd st)) \<subseteq> set (triggeredLog (snd (processSwitch gua arw now sw st)))"
  by (auto simp: processSwitch_def Let_def split: option.splits)

lemma notin_map: "x \<notin> set (map f xs) \<Longrightarrow> y \<in> set xs \<Longrightarrow> f y \<noteq> x"
  by (induction xs) auto

lemma keyed_srem [simp]: "keyed (srem s k x) = keyed s"
  by (simp add: keyed_def)

lemma overdueLoop_ids:
  assumes "keyed s" and "sw \<in> set (snd (overdueLoop now ids s))"
  shows "text_of (switchId sw) \<in> set ids"
proof -
  from assms(2) overdueLoop_result[of now ids s]
  obtain i where "i \<in> set ids" "getSwitch s i = Some sw" by auto
  with assms(1) show ?thesis by (simp add: keyed_def text_of_def)
qed

lemma overdueLoop_distinct:
  assumes "keyed s" and "distinct ids"
  shows "distinct (map (\<lambda>sw. text_of (switchId sw)) (snd (overdueLoop now ids s)))"
  using assms
proof (induction ids arbitrary: s)
  case Nil
  then show ?case by simp
next
  case (Cons a ids)
  from Cons.prems have d: "distinct ids" and na: "a \<notin> set ids" by simp_all
  show ?case
  proof (cases "\<exists>sw. getSwitch s a = Some sw \<and> status sw = Some Active")
    case False
    then have "overdueLoop now (a # ids) s = overdueLoop now ids (srem s ACTIVE_SET a)"
      by (auto split: option.splits)
    moreover have "keyed (srem s ACTIVE_SET a)" using Cons.prems(1) by simp
    ultimately show ?thesis using Cons.IH[OF _ d] by simp
  next
    case True
    then obtain sw where g: "getSwitch s a = Some sw" and act: "status sw = Some Active"
      by blast
    from Cons.prems(1) g have ida: "text_of (switchId sw) = a"
      by (simp add: keyed_def text_of_def)
    have rest: "distinct (map (\<lambda>sw. text_of (switchId sw)) (snd (overdueLoop now ids s)))"
      using Cons.IH[OF Cons.prems(1) d] .
    have fresh: "a \<notin> (\<lambda>sw. text_of (switchId sw)) ` set (snd (overdueLoop now ids s))"
      using overdueLoop_ids[OF Cons.prems(1)] na by auto
    have "snd (overdueLoop now (a # ids) s) = sw # snd (overdueLoop now ids s) \<or>
          snd (overdueLoop now (a # ids) s) = snd (overdueLoop now ids s)"
      using g act by (simp split: prod.splits option.splits)
    with rest fresh ida show ?thesis by auto
  qed
qed

lemma processSwitch_cases:
  "(fst (processSwitch gua arw now sw st) = fst st \<and>
    triggeredLog (snd (processSwitch gua arw now sw st)) = triggeredLog (snd st)) \<or>
   (\<exists>tx p. arweaveTxId sw = Some tx \<and> fetchPayload (fst st) now arw tx = Some p \<and> truthy p \<and>
      strs (fst (processSwitch gua arw now sw st)) =
        (strs (fst st))(releaseKey (text_of (switchId sw)) \<mapsto>
           (ReleaseJson (text_of (switchId sw)) (senderPubkey sw) (recipientUsername sw) p now,
            now + 7776000000)) \<and>
      triggeredLog (snd (processSwitch gua arw now sw st)) =
        triggeredLog (snd st) @ [text_of (switchId sw)])"
proof (cases "gua (recipientUsername sw) \<and>
             (\<exists>tx p. arweaveTxId sw = Some tx \<and> fetchPayload (fst st) now arw tx = Some p \<and> truthy p)")
  case False
  from processSwitch_skip[of gua sw st now arw, OF False] show ?thesis by simp
next
  case True
  then obtain tx p where ok: "gua (recipientUsername sw)" "arweaveTxId sw = Some tx"
    "fetchPayload (fst st) now arw tx = Some p" "truthy p"
    by blast
  note r = processSwitch_release[of gua sw tx st now arw p, OF ok]
  have "strs (fst (processSwitch gua arw now sw st)) =
        (strs (fst st))(releaseKey (text_of (switchId sw)) \<mapsto>
           (ReleaseJson (text_of (switchId sw)) (senderPubkey sw) (recipientUsername sw) p now,
            now + 7776000000))"
    by (simp add: r markTriggered_fields)
  with ok r(3) show ?thesis by blast
qed

lemma fold_processSwitch_frame:
  "strs (fst (fold (processSwitch gua arw now) sws st)) k = strs (fst st) k \<or>
   (\<exists>sw \<in> set sws. k = releaseKey (text_of (switchId sw)))"
proof (induction sws arbitrary: st)
  case Nil
  then show ?case by simp
next
  case (Cons a sws)
  from Cons.IH[of "processSwitch gua arw now a st"]
    processSwitch_strs[of gua arw now a st k]
  show ?case by auto
qed

lemma fetchPayload_source:
  assumes "fetchPayload s0 now arw tx = Some p"
  shows "if startsWith tx ''local:''
         then \<exists>e. now < e \<and> strs s0 (''dms:'' @ drop 6 tx) = Some (p, e)
         else \<exists>m. arw tx = Some m \<and> p = Text m"
  using assms
  by (auto simp: fetchPayload_def getMessageContent_def getString_def Let_def
      split: if_splits option.splits)

lemma fold_processSwitch_payload:
  assumes "distinct (map (\<lambda>sw. text_of (switchId sw)) sws)"
    and "i \<in> set (triggeredLog (snd (fold (processSwitch gua arw now) sws st)))"
  shows "i \<in> set (triggeredLog (snd st)) \<or>
     (\<exists>sw \<in> set sws. \<exists>tx p. text_of (switchId sw) = i \<and> arweaveTxId sw = Some tx \<and> truthy p \<and>
        strs (fst (fold (processSwitch gua arw now) sws st)) (releaseKey i) =
          Some (ReleaseJson i (senderPubkey sw) (recipientUsername sw) p now, now + 7776000000) \<and>
        (if startsWith tx ''local:''
         then \<exists>e. now < e \<and>
                (strs (fst st) (''dms:'' @ drop 6 tx) = Some (p, e) \<or>
                 strs (fst (fold (processSwitch gua arw now) sws st)) (''dms:'' @ drop 6 tx)
                   = Some (p, e))
         else \<exists>m. arw tx = Some m \<and> p = Text m))"
  using assms
proof (induction sws arbitrary: st)
  case Nil
  then show ?case by simp
next
  case (Cons a sws)
  define ida where "ida = text_of (switchId a)"
  define st1 where "st1 = processSwitch gua arw now a st"
  define fin where "fin = fold (processSwitch gua arw now) sws st1"
  have fin: "fold (processSwitch gua arw now) (a # sws) st = fin"
    by (simp add: fin_def st1_def)
  from Cons.prems(1) have d: "distinct (map (\<lambda>sw. text_of (switchId sw)) sws)"
    and "ida \<notin> set (map (\<lambda>sw. text_of (switchId sw)) sws)"
    by (simp_all add: ida_def)
  then have na: "\<forall>sw \<in> set sws. text_of (switchId sw) \<noteq> ida"
    using notin_map by fastforce
  have keepA: "strs (fst fin) (releaseKey ida) = strs (fst st1) (releaseKey ida)"
    using fold_processSwitch_frame[of gua arw now sws st1 "releaseKey ida"] na
    by (auto simp: fin_def)
  have tr: "strs (fst st) k = Some v \<or> strs (fst fin) k = Some v"
    if "strs (fst st1) k = Some v" for k v
    using processSwitch_strs[of gua arw now a st k] that keepA
    by (auto simp: st1_def ida_def)
  from Cons.prems(2) have mem: "i \<in> set (triggeredLog (snd fin))"
    by (simp add: fin_def st1_def)
  from Cons.IH[OF d, of st1, folded fin_def, OF mem]
  consider (old) "i \<in> set (triggeredLog (snd st1))"
    | (later) sw tx p where "sw \<in> set sws" "text_of (switchId sw) = i" "arweaveTxId sw = Some tx"
        "truthy p"
        "strs (fst fin) (releaseKey i) =
           Some (ReleaseJson i (senderPubkey sw) (recipientUsername sw) p now, now + 7776000000)"
        "if startsWith tx ''local:''
         then \<exists>e. now < e \<and>
                (strs (fst st1) (''dms:'' @ drop 6 tx) = Some (p, e) \<or>
                 strs (fst fin) (''dms:'' @ drop 6 tx) = Some (p, e))
         else \<exists>m. arw tx = Some m \<and> p = Text m"
    by blast
  then show ?case
  proof cases
    case later
    have src: "if startsWith tx ''local:''
         then \<exists>e. now < e \<and>
                (strs (fst st) (''dms:'' @ drop 6 tx) = Some (p, e) \<or>
                 strs (fst fin) (''dms:'' @ drop 6 tx) = Some (p, e))
         else \<exists>m. arw tx = Some m \<and> p = Text m"
    proof (cases "startsWith tx ''local:''")
      case True
      with later(6) obtain e where e: "now < e"
        "strs (fst st1) (''dms:'' @ drop 6 tx) = Some (p, e) \<or>
         strs (fst fin) (''dms:'' @ drop 6 tx) = Some (p, e)"
        by auto
      from e(2) tr have "strs (fst st) (''dms:'' @ drop 6 tx) = Some (p, e) \<or>
         strs (fst fin) (''dms:'' @ drop 6 tx) = Some (p, e)"
        by blast
      with e(1) True show ?thesis by auto
    next
      case False
      with later(6) show ?thesis by simp
    qed
    have "\<exists>sw \<in> set (a # sws). \<exists>tx p. text_of (switchId sw) = i \<and> arweaveTxId sw = Some tx \<and>
        truthy p \<and>
        strs (fst fin) (releaseKey i) =
          Some (ReleaseJson i (senderPubkey sw) (recipientUsername sw) p now, now + 7776000000) \<and>
        (if startsWith tx ''local:''
         then \<exists>e. now < e \<and>
                (strs (fst st) (''dms:'' @ drop 6 tx) = Some (p, e) \<or>
                 strs (fst fin) (''dms:'' @ drop 6 tx) = Some (p, e))
         else \<exists>m. arw tx = Some m \<and> p = Text m)"
      using later(1-5) src by (intro bexI[of _ sw] exI[of _ tx] exI[of _ p]) simp_all
    then show ?thesis unfolding fin by blast
  next
    case old
    from processSwitch_cases[of gua arw now a st, folded st1_def ida_def]
    consider (skip) "triggeredLog (snd st1) = triggeredLog (snd st)"
      | (release) tx p where "arweaveTxId a = Some tx" "fetchPayload (fst st) now arw tx = Some p"
          "truthy p"
          "strs (fst st1) =
             (strs (fst st))(releaseKey ida \<mapsto>
                (ReleaseJson ida (senderPubkey a) (recipientUsername a) p now, now + 7776000000))"
          "triggeredLog (snd st1) = triggeredLog (snd st) @ [ida]"
      by blast
    then show ?thesis
    proof cases
      case skip
      with old show ?thesis by simp
    next
      case release
      show ?thesis
      proof (cases "i = ida")
        case False
        with old release(5) show ?thesis by simp
      next
        case True
        have rec: "strs (fst fin) (releaseKey i) =
          Some (ReleaseJson i (senderPubkey a) (recipientUsername a) p now, now + 7776000000)"
          using keepA release(4) True by simp
        have src: "if startsWith tx ''local:''
           then \<exists>e. now < e \<and>
                  (strs (fst st) (''dms:'' @ drop 6 tx) = Some (p, e) \<or>
                   strs (fst fin) (''dms:'' @ drop 6 tx) = Some (p, e))
           else \<exists>m. arw tx = Some m \<and> p = Text m"
          using fetchPayload_source[OF release(2)] by (auto split: if_splits)
        have "\<exists>sw \<in> set (a # sws). \<exists>tx p. text_of (switchId sw) = i \<and>
            arweaveTxId sw = Some tx \<and> truthy p \<and>
            strs (fst fin) (releaseKey i) =
              Some (ReleaseJson i (senderPubkey sw) (recipientUsername sw) p now, now + 7776000000) \<and>
            (if startsWith tx ''local:''
             then \<exists>e. now < e \<and>
                    (strs (fst st) (''dms:'' @ drop 6 tx) = Some (p, e) \<or>
                     strs (fst fin) (''dms:'' @ drop 6 tx) = Some (p, e))
             else \<exists>m. arw tx = Some m \<and> p = Text m)"
          using True release(1,3) rec src
          by (intro bexI[of _ a] exI[of _ tx] exI[of _ p]) (simp_all add: ida_def)
        then show ?thesis unfolding fin by blast
      qed
    qed
  qed
qed

text \<open>
  C2.  A sweep with the right cron secret, on a store whose switch records are keyed by
  their ids and whose active index lists each id once: the route answers 200, its count
  \<^verbatim>\<open>processed\<close> is the number of switches it logged as triggered, and every such switch
  was active before the sweep, has status triggered and \<^verbatim>\<open>triggeredAt\<close> set
  afterwards, is not in the active index, and has under \<^verbatim>\<open>dms:release:<switchId>\<close> a
  release record with its id, its sender, its recipient, its payload and the instant of
  the sweep, expiring 90 days later and readable at the instant of the sweep.  The
  payload is not empty and is the one that the handle of the switch names: for a handle
  that does not start with \<^verbatim>\<open>local:\<close>, the text that the blob store returns for it; for
  a handle \<^verbatim>\<open>local:<id>\<close>, the unexpired value under \<^verbatim>\<open>dms:<id>\<close> in the store (as the
  store holds it before the sweep, or after it if the sweep itself wrote that key).
\<close>

theorem C2_processed_switches_are_released:
  assumes "keyed s" and "distinct (smembers s ACTIVE_SET)"
    and "cronSecret = Some dmsCronSecret" and "dmsCronSecret \<noteq> []"
  shows "\<exists>s' body log.
     process_route s now cronSecret dmsCronSecret gua arw = (s', Ok200 body, log) \<and>
     sb_processed body = length log \<and>
     (\<forall>i \<in> set log. \<exists>sw h tx payload.
         getSwitch s i = Some sw \<and> status sw = Some Active \<and> arweaveTxId sw = Some tx \<and>
         getSwitch s' i = Some h \<and> status h = Some Triggered \<and> triggeredAt h = Some now \<and>
         i \<notin> set (smembers s' ACTIVE_SET) \<and> truthy payload \<and>
         (if startsWith tx ''local:''
          then \<exists>e. now < e \<and>
                 (strs s (''dms:'' @ drop 6 tx) = Some (payload, e) \<or>
                  strs s' (''dms:'' @ drop 6 tx) = Some (payload, e))
          else \<exists>m. arw tx = Some m \<and> payload = Text m) \<and>
         strs s' (releaseKey i) =
           Some (ReleaseJson i (senderPubkey sw) (recipientUsername sw) payload now,
                 now + 1000 * (90 * 24 * 60 * 60)) \<and>
         getString s' now (releaseKey i) =
           Some (ReleaseJson i (senderPubkey sw) (recipientUsername sw) payload now))"
proof -
  from getOverdueSwitches_result[of s now] obtain s1 overdue where
    o: "getOverdueSwitches s now = (s1, overdue)"
    and sw1: "switches s1 = switches s"
    and st1: "strs s1 = strs s"
    and ov: "set overdue =
       {sw. \<exists>i \<in> set (smembers s ACTIVE_SET). getSwitch s i = Some sw \<and>
            status sw = Some Active \<and> (\<exists>d. nextDeadline sw = Some d \<and> d < now)}"
    by blast
  have dist: "distinct (map (\<lambda>sw. text_of (switchId sw)) overdue)"
    using overdueLoop_distinct[OF assms(1,2), of now] o by (simp add: getOverdueSwitches_def)
  define acc0 where "acc0 = \<lparr> processed = 0, errors = [], triggeredLog = [] \<rparr>"
  define fin where "fin = fold (processSwitch gua arw now) overdue (s1, acc0)"
  have "\<forall>sw \<in> set overdue. \<exists>i. getSwitch s i = Some sw" using ov by auto
  from sweep_inv_start[OF assms(1) sw1 this]
  have "sweep_inv now overdue (s1, acc0)" by (simp add: acc0_def)
  then have inv: "sweep_inv now overdue fin"
    unfolding fin_def by (rule sweep_inv_fold) simp
  have route: "\<exists>body. process_route s now cronSecret dmsCronSecret gua arw =
                  (fst fin, Ok200 body, triggeredLog (snd fin)) \<and>
                sb_processed body = length (triggeredLog (snd fin))"
  proof (cases "overdue = []")
    case True
    then show ?thesis
      using assms(3,4) o by (simp add: process_route_def fin_def acc0_def)
  next
    case False
    have "sb_processed \<lparr> sb_processed = processed (snd fin), sb_total = Some (length overdue),
             sb_errors = (if errors (snd fin) = [] then None else Some (errors (snd fin))) \<rparr>
           = length (triggeredLog (snd fin))"
      using inv by (simp add: sweep_inv_def)
    then show ?thesis
      using assms(3,4) o False
      by (auto simp add: process_route_def fin_def[symmetric] acc0_def[symmetric] Let_def
          split: prod.splits)
  qed
  have each: "\<exists>sw h tx payload.
         getSwitch s i = Some sw \<and> status sw = Some Active \<and> arweaveTxId sw = Some tx \<and>
         getSwitch (fst fin) i = Some h \<and> status h = Some Triggered \<and> triggeredAt h = Some now \<and>
         i \<notin> set (smembers (fst fin) ACTIVE_SET) \<and> truthy payload \<and>
         (if startsWith tx ''local:''
          then \<exists>e. now < e \<and>
                 (strs s (''dms:'' @ drop 6 tx) = Some (payload, e) \<or>
                  strs (fst fin) (''dms:'' @ drop 6 tx) = Some (payload, e))
          else \<exists>m. arw tx = Some m \<and> payload = Text m) \<and>
         strs (fst fin) (releaseKey i) =
           Some (ReleaseJson i (senderPubkey sw) (recipientUsername sw) payload now,
                 now + 1000 * (90 * 24 * 60 * 60)) \<and>
         getString (fst fin) now (releaseKey i) =
           Some (ReleaseJson i (senderPubkey sw) (recipientUsername sw) payload now)"
    if "i \<in> set (triggeredLog (snd fin))" for i
  proof -
    from inv that obtain h where
      h: "switches (fst fin) (switchKey i) = Some h" "status h = Some Triggered"
         "triggeredAt h = Some now"
      and na: "i \<notin> set (smembers (fst fin) ACTIVE_SET)"
      unfolding sweep_inv_def by blast
    note pl = fold_processSwitch_payload[OF dist that[unfolded fin_def], folded fin_def]
    have nl: "i \<notin> set (triggeredLog (snd (s1, acc0)))" by (simp add: acc0_def)
    from pl nl obtain sw tx payload where
      sw: "sw \<in> set overdue" "text_of (switchId sw) = i" "arweaveTxId sw = Some tx"
        "truthy payload"
      and rel: "strs (fst fin) (releaseKey i) =
              Some (ReleaseJson i (senderPubkey sw) (recipientUsername sw) payload now,
                    now + 7776000000)"
      and src0: "if startsWith tx ''local:''
          then \<exists>e. now < e \<and>
                 (strs (fst (s1, acc0)) (''dms:'' @ drop 6 tx) = Some (payload, e) \<or>
                  strs (fst fin) (''dms:'' @ drop 6 tx) = Some (payload, e))
          else \<exists>m. arw tx = Some m \<and> payload = Text m"
      by (elim disjE bexE exE conjE) (simp, rule that)
    have src: "if startsWith tx ''local:''
          then \<exists>e. now < e \<and>
                 (strs s (''dms:'' @ drop 6 tx) = Some (payload, e) \<or>
                  strs (fst fin) (''dms:'' @ drop 6 tx) = Some (payload, e))
          else \<exists>m. arw tx = Some m \<and> payload = Text m"
      using src0 by (cases "startsWith tx ''local:''") (simp_all add: st1)
    from sw(1) ov obtain j where j: "getSwitch s j = Some sw" "status sw = Some Active"
      by auto
    with assms(1) have idj: "switchId sw = Some j" by (simp add: keyed_def)
    with sw(2) have "j = i" by (simp add: text_of_def)
    with j have gs: "getSwitch s i = Some sw" by simp
    from inv sw(1) idj \<open>j = i\<close> obtain h' where
      "i \<noteq> []" "switches (fst fin) (switchKey i) = Some h'" "switchId h' = Some i"
      unfolding sweep_inv_def by fastforce
    with h have gh: "getSwitch (fst fin) i = Some h"
      by (simp add: getSwitch_Some_iff)
    have gr: "getString (fst fin) now (releaseKey i) =
           Some (ReleaseJson i (senderPubkey sw) (recipientUsername sw) payload now)"
      by (simp add: getString_def rel)
    from gs j(2) sw(3) gh h(2,3) na sw(4) src rel gr show ?thesis
      by (intro exI[of _ sw] exI[of _ h] exI[of _ tx] exI[of _ payload]) simp
  qed
  from route each show ?thesis by blast
qed


lemma fold_processSwitch_releases:
  assumes U: "\<forall>sw \<in> set sws. text_of (switchId sw) = i0 \<longrightarrow> sw = sw0"
    and sw0: "text_of (switchId sw0) = i0" "gua (recipientUsername sw0)"
      "arweaveTxId sw0 = Some tx" "truthy p"
    and stable: "\<forall>s'. (\<forall>k. \<not> startsWith k ''dms:release:'' \<longrightarrow> strs s' k = strs s0 k)
                   \<longrightarrow> fetchPayload s' now arw tx = Some p"
    and Q: "\<forall>k. \<not> startsWith k ''dms:release:'' \<longrightarrow> strs (fst st) k = strs s0 k"
    and R: "sw0 \<in> set sws \<or>
            (strs (fst st) (releaseKey i0) =
               Some (ReleaseJson i0 (senderPubkey sw0) (recipientUsername sw0) p now, now + 7776000000) \<and>
             i0 \<in> set (triggeredLog (snd st)))"
  shows "strs (fst (fold (processSwitch gua arw now) sws st)) (releaseKey i0) =
           Some (ReleaseJson i0 (senderPubkey sw0) (recipientUsername sw0) p now, now + 7776000000) \<and>
         i0 \<in> set (triggeredLog (snd (fold (processSwitch gua arw now) sws st)))"
  using U Q R
proof (induction sws arbitrary: st)
  case Nil
  then show ?case by simp
next
  case (Cons a sws)
  define st' where "st' = processSwitch gua arw now a st"
  have Q': "\<forall>k. \<not> startsWith k ''dms:release:'' \<longrightarrow> strs (fst st') k = strs s0 k"
  proof (intro allI impI)
    fix k assume n: "\<not> startsWith k ''dms:release:''"
    then have "k \<noteq> releaseKey (text_of (switchId a))" by auto
    with processSwitch_strs[of gua arw now a st k] have "strs (fst st') k = strs (fst st) k"
      by (simp add: st'_def)
    with Cons.prems(2) n show "strs (fst st') k = strs s0 k" by simp
  qed
  have R': "sw0 \<in> set sws \<or>
            (strs (fst st') (releaseKey i0) =
               Some (ReleaseJson i0 (senderPubkey sw0) (recipientUsername sw0) p now, now + 7776000000) \<and>
             i0 \<in> set (triggeredLog (snd st')))"
  proof (cases "text_of (switchId a) = i0")
    case True
    with Cons.prems(1) have a: "a = sw0" by simp
    from stable Cons.prems(2) have f: "fetchPayload (fst st) now arw tx = Some p" by blast
    note r = processSwitch_release[of gua sw0 tx st now arw p, OF sw0(2,3) f sw0(4)]
    show ?thesis
      unfolding st'_def a by (simp add: r sw0(1) markTriggered_fields)
  next
    case False
    show ?thesis
    proof (cases "sw0 \<in> set sws")
      case True
      then show ?thesis by simp
    next
      case no: False
      with Cons.prems(3) False sw0(1) have old:
        "strs (fst st) (releaseKey i0) =
               Some (ReleaseJson i0 (senderPubkey sw0) (recipientUsername sw0) p now, now + 7776000000)"
        "i0 \<in> set (triggeredLog (snd st))"
        by auto
      from False have "releaseKey i0 \<noteq> releaseKey (text_of (switchId a))" by auto
      with processSwitch_strs[of gua arw now a st "releaseKey i0"]
      have "strs (fst st') (releaseKey i0) = strs (fst st) (releaseKey i0)"
        by (simp add: st'_def)
      moreover have "i0 \<in> set (triggeredLog (snd st'))"
        using old(2) processSwitch_log_grows[of st gua arw now a] by (auto simp: st'_def)
      ultimately show ?thesis using old(1) by simp
    qed
  qed
  have U': "\<forall>sw \<in> set sws. text_of (switchId sw) = i0 \<longrightarrow> sw = sw0"
    using Cons.prems(1) by simp
  from Cons.IH[OF U' Q' R'] show ?case by (simp add: st'_def)
qed

lemma process_route_releases:
  assumes k: "keyed s" and secret: "dmsCronSecret \<noteq> []"
    and g: "getSwitch s i0 = Some sw0" and act: "status sw0 = Some Active"
    and due: "nextDeadline sw0 = Some d" "d < now"
    and idx: "i0 \<in> set (smembers s ACTIVE_SET)"
    and found: "gua (recipientUsername sw0)"
    and tx: "arweaveTxId sw0 = Some tx" and p: "truthy p"
    and stable: "\<forall>s'. (\<forall>k. \<not> startsWith k ''dms:release:'' \<longrightarrow> strs s' k = strs s k)
                   \<longrightarrow> fetchPayload s' now arw tx = Some p"
  shows "\<exists>s' body log.
      process_route s now (Some dmsCronSecret) dmsCronSecret gua arw = (s', Ok200 body, log) \<and>
      i0 \<in> set log \<and>
      strs s' (releaseKey i0) =
        Some (ReleaseJson i0 (senderPubkey sw0) (recipientUsername sw0) p now, now + 7776000000)"
proof -
  from getOverdueSwitches_result[of s now] obtain s1 overdue where
    o: "getOverdueSwitches s now = (s1, overdue)"
    and st1: "strs s1 = strs s"
    and ov: "set overdue =
       {sw. \<exists>i \<in> set (smembers s ACTIVE_SET). getSwitch s i = Some sw \<and>
            status sw = Some Active \<and> (\<exists>d. nextDeadline sw = Some d \<and> d < now)}"
    by blast
  have mem: "sw0 \<in> set overdue" using ov g act due idx by auto
  then have ne: "overdue \<noteq> []" by auto
  have id0: "text_of (switchId sw0) = i0" using k g by (simp add: keyed_def text_of_def)
  have U: "\<forall>sw \<in> set overdue. text_of (switchId sw) = i0 \<longrightarrow> sw = sw0"
  proof (intro ballI impI)
    fix sw assume "sw \<in> set overdue" and t: "text_of (switchId sw) = i0"
    with ov obtain j where j: "getSwitch s j = Some sw" by auto
    with k have "switchId sw = Some j" by (simp add: keyed_def)
    with t have "j = i0" by (simp add: text_of_def)
    with j g show "sw = sw0" by simp
  qed
  define acc0 where "acc0 = \<lparr> processed = 0, errors = [], triggeredLog = [] \<rparr>"
  define fin where "fin = fold (processSwitch gua arw now) overdue (s1, acc0)"
  have Q: "\<forall>k. \<not> startsWith k ''dms:release:'' \<longrightarrow> strs (fst (s1, acc0)) k = strs s k"
    by (simp add: st1)
  have R: "sw0 \<in> set overdue \<or>
            (strs (fst (s1, acc0)) (releaseKey i0) =
               Some (ReleaseJson i0 (senderPubkey sw0) (recipientUsername sw0) p now, now + 7776000000) \<and>
             i0 \<in> set (triggeredLog (snd (s1, acc0))))"
    using mem by simp
  from fold_processSwitch_releases[where gua = gua and arw = arw and st = "(s1, acc0)"
      and sws = overdue and ?i0.0 = i0 and ?sw0.0 = sw0 and tx = tx and p = p and ?s0.0 = s
      and now = now, OF U id0 found tx p stable Q R]
  have rel: "strs (fst fin) (releaseKey i0) =
           Some (ReleaseJson i0 (senderPubkey sw0) (recipientUsername sw0) p now, now + 7776000000)"
    and lg: "i0 \<in> set (triggeredLog (snd fin))"
    by (simp_all add: fin_def)
  have "\<exists>body. process_route s now (Some dmsCronSecret) dmsCronSecret gua arw =
                  (fst fin, Ok200 body, triggeredLog (snd fin))"
    using secret o ne
    by (auto simp add: process_route_def fin_def[symmetric] acc0_def[symmetric] Let_def
          split: prod.splits)
  with rel lg show ?thesis by blast
qed


lemma fetchPayload_local:
  assumes "strs s' (''dms:local-'' @ nonce) = Some (v, e)" and "now < e"
  shows "fetchPayload s' now arw (''local:local-'' @ nonce) = Some v"
  using assms by (simp add: fetchPayload_def startsWith_def getMessageContent_def getString_def)

lemma fetchPayload_external:
  assumes "\<not> startsWith tx ''local:''" and "arw tx = Some m"
  shows "fetchPayload s' now arw tx = Some (Text m)"
  using assms by (simp add: fetchPayload_def)

lemma local_key_not_release: "\<not> startsWith (''dms:local-'' @ nonce) ''dms:release:''"
  by (simp add: startsWith_def)

text \<open>
  C9 (as amended).  A create request that the route accepts while the upload to the blob
  store throws: the switch is created with the handle \<^verbatim>\<open>local:local-<nonce>\<close>, and the
  ciphertext is stored under \<^verbatim>\<open>dms:local-<nonce>\<close>, expiring one year later.  A sweep
  of that store at an instant after the deadline and before the expiry of the
  fallback blob, with the recipient resolving, logs the switch as triggered and writes
  under \<^verbatim>\<open>dms:release:<switchId>\<close> the release record with exactly that ciphertext,
  the same record that the sweep writes when the upload had succeeded and the blob
  store returns the ciphertext.
\<close>

theorem C9_fallback_round_trip_within_ttl:
  assumes valid: "c_recipientUsername req \<noteq> []" "c_encryptedMessage req \<noteq> []"
      "1 \<le> c_checkInIntervalHours req" "c_checkInIntervalHours req \<le> 8760"
      "c_senderPubkey req \<noteq> []" "c_signature req \<noteq> []" "c_timestamp req \<noteq> 0"
    and uuid: "uuid \<noteq> []" and k: "keyed s" and secret: "dmsCronSecret \<noteq> []"
    and due: "t0 + c_checkInIntervalHours req * 60 * 60 * 1000 < t"
    and live: "t < t0 + 1000 * (365 * 24 * 60 * 60)"
    and found: "gua (Some (c_recipientUsername req))"
    and happy: "\<not> startsWith tx ''local:''" "arw tx = Some (c_encryptedMessage req)"
  shows "\<exists>s1 d s2 body log s1h s2h bodyh logh.
     create_route s t0 True True None uuid nonce req =
       (s1, Ok200 \<lparr> cb_switchId = Some uuid, cb_nextDeadline = Some d \<rparr>) \<and>
     map_option arweaveTxId (getSwitch s1 uuid) = Some (Some (''local:local-'' @ nonce)) \<and>
     startsWith (''local:local-'' @ nonce) ''local:'' \<and>
     strs s1 (''dms:local-'' @ nonce) =
       Some (Text (c_encryptedMessage req), t0 + 1000 * (365 * 24 * 60 * 60)) \<and>
     process_route s1 t (Some dmsCronSecret) dmsCronSecret gua arw = (s2, Ok200 body, log) \<and>
     uuid \<in> set log \<and>
     strs s2 (releaseKey uuid) =
       Some (ReleaseJson uuid (Some (c_senderPubkey req)) (Some (c_recipientUsername req))
               (Text (c_encryptedMessage req)) t,
             t + 1000 * (90 * 24 * 60 * 60)) \<and>
     create_route s t0 True True (Some tx) uuid nonce req =
       (s1h, Ok200 \<lparr> cb_switchId = Some uuid, cb_nextDeadline = Some d \<rparr>) \<and>
     process_route s1h t (Some dmsCronSecret) dmsCronSecret gua arw = (s2h, Ok200 bodyh, logh) \<and>
     strs s2h (releaseKey uuid) = strs s2 (releaseKey uuid)"
proof -
  define d where "d = t0 + c_checkInIntervalHours req * 60 * 60 * 1000"
  define doc where "doc = (ReleaseJson uuid (Some (c_senderPubkey req))
      (Some (c_recipientUsername req)) (Text (c_encryptedMessage req)) t, t + 7776000000)"
  have msg: "truthy (Text (c_encryptedMessage req))" using valid(2) by simp
  \<comment> \<open>the fallback path\<close>
  from create_route_result[OF valid uuid, of s t0 None nonce] k
  obtain s1 ta where
    c1: "create_route s t0 True True None uuid nonce req =
           (s1, Ok200 \<lparr> cb_switchId = Some uuid, cb_nextDeadline = Some d \<rparr>)"
    and g1: "getSwitch s1 uuid =
            Some \<lparr> switchId = Some uuid, senderPubkey = Some (c_senderPubkey req),
                   recipientUsername = Some (c_recipientUsername req),
                   arweaveTxId = Some (''local:local-'' @ nonce),
                   intervalHours = Some (c_checkInIntervalHours req),
                   nextDeadline = Some d,
                   status = Some Active, createdAt = Some t0, triggeredAt = ta \<rparr>"
    and a1: "uuid \<in> set (smembers s1 ACTIVE_SET)"
    and b1: "strs s1 = (strs s)(''dms:local-'' @ nonce \<mapsto>
                         (Text (c_encryptedMessage req), t0 + 31536000000))"
    and k1: "keyed s1"
    unfolding d_def by (elim exE conjE) auto
  have stable1: "\<forall>s'. (\<forall>k. \<not> startsWith k ''dms:release:'' \<longrightarrow> strs s' k = strs s1 k)
       \<longrightarrow> fetchPayload s' t arw (''local:local-'' @ nonce) = Some (Text (c_encryptedMessage req))"
  proof (intro allI impI)
    fix s' :: store assume "\<forall>k. \<not> startsWith k ''dms:release:'' \<longrightarrow> strs s' k = strs s1 k"
    with local_key_not_release[of nonce]
    have "strs s' (''dms:local-'' @ nonce) = strs s1 (''dms:local-'' @ nonce)" by blast
    then have "strs s' (''dms:local-'' @ nonce) =
        Some (Text (c_encryptedMessage req), t0 + 31536000000)"
      by (simp add: b1)
    then show "fetchPayload s' t arw (''local:local-'' @ nonce) = Some (Text (c_encryptedMessage req))"
      using live by (intro fetchPayload_local) simp_all
  qed
  from process_route_releases[where gua = gua and arw = arw and d = d,
      OF k1 secret g1 _ _ _ a1 _ _ msg stable1] due found
  obtain s2 body log where
    p1: "process_route s1 t (Some dmsCronSecret) dmsCronSecret gua arw = (s2, Ok200 body, log)"
    and l1: "uuid \<in> set log" and r1: "strs s2 (releaseKey uuid) = Some doc"
    by (auto simp: d_def doc_def)
  \<comment> \<open>the path through the blob store\<close>
  from create_route_result[OF valid uuid, of s t0 "Some tx" nonce] k
  obtain s1h tb where
    c2: "create_route s t0 True True (Some tx) uuid nonce req =
           (s1h, Ok200 \<lparr> cb_switchId = Some uuid, cb_nextDeadline = Some d \<rparr>)"
    and g2: "getSwitch s1h uuid =
            Some \<lparr> switchId = Some uuid, senderPubkey = Some (c_senderPubkey req),
                   recipientUsername = Some (c_recipientUsername req),
                   arweaveTxId = Some tx,
                   intervalHours = Some (c_checkInIntervalHours req),
                   nextDeadline = Some d,
                   status = Some Active, createdAt = Some t0, triggeredAt = tb \<rparr>"
    and a2: "uuid \<in> set (smembers s1h ACTIVE_SET)"
    and k2: "keyed s1h"
    unfolding d_def by (elim exE conjE) auto
  have stable2: "\<forall>s'. (\<forall>k. \<not> startsWith k ''dms:release:'' \<longrightarrow> strs s' k = strs s1h k)
       \<longrightarrow> fetchPayload s' t arw tx = Some (Text (c_encryptedMessage req))"
    using fetchPayload_external[where arw = arw and tx = tx, OF happy] by simp
  from process_route_releases[where gua = gua and arw = arw and d = d,
      OF k2 secret g2 _ _ _ a2 _ _ msg stable2] due found
  obtain s2h bodyh logh where
    p2: "process_route s1h t (Some dmsCronSecret) dmsCronSecret gua arw = (s2h, Ok200 bodyh, logh)"
    and r2: "strs s2h (releaseKey uuid) = Some doc"
    by (auto simp: d_def doc_def)
  have h1: "map_option arweaveTxId (getSwitch s1 uuid) = Some (Some (''local:local-'' @ nonce))"
    by (simp add: g1)
  have h2: "startsWith (''local:local-'' @ nonce) ''local:''"
    by (simp add: startsWith_def)
  have h3: "strs s1 (''dms:local-'' @ nonce) =
       Some (Text (c_encryptedMessage req), t0 + 1000 * (365 * 24 * 60 * 60))"
    by (simp add: b1)
  have h4: "strs s2 (releaseKey uuid) =
       Some (ReleaseJson uuid (Some (c_senderPubkey req)) (Some (c_recipientUsername req))
               (Text (c_encryptedMessage req)) t,
             t + 1000 * (90 * 24 * 60 * 60))"
    by (simp add: r1 doc_def)
  have h5: "strs s2h (releaseKey uuid) = strs s2 (releaseKey uuid)"
    by (simp add: r1 r2)
  show ?thesis
    by (intro exI[of _ s1] exI[of _ d] exI[of _ s2] exI[of _ body] exI[of _ log]
        exI[of _ s1h] exI[of _ s2h] exI[of _ bodyh] exI[of _ logh] conjI)
      (fact c1 h1 h2 h3 p1 l1 h4 c2 p2 h5)+
qed

lemma sweep_s_created_log:
  "snd (snd (process_route s_created 7200000 (Some ''secret'') ''secret'' (\<lambda>u. True) blob_store))
     = [''w1'']"
  by (simp add: process_route_def getOverdueSwitches_def smembers_def s_created_store
      getSwitch_s_created processSwitch_def fetchPayload_def startsWith_def blob_store_def
      Let_def text_of_def split: prod.splits)

lemma s_local_store:
  "switches s_local = [switchKey ''w1'' \<mapsto>
      \<lparr> switchId = Some ''w1'', senderPubkey = Some ''S'', recipientUsername = Some ''alice'',
        arweaveTxId = Some ''local:local-n1'', intervalHours = Some 1,
        nextDeadline = Some 3601000, status = Some Active, createdAt = Some 1000,
        triggeredAt = None \<rparr>]"
  "sets s_local ACTIVE_SET = [''w1'']"
  "strs s_local = [''dms:local-n1'' \<mapsto> (Text ''ciphertext'', 31536001000)]"
  by (simp_all add: s_local_def create_route_def alice_req_def createSwitch_def Let_def
      sadd_def emptyStore_def noFields_def storeMessageBlob_def setStringWithExpiry_def
      setHash_def)

lemma getSwitch_s_local:
  "getSwitch s_local i =
     (if i = ''w1'' then Some
        \<lparr> switchId = Some ''w1'', senderPubkey = Some ''S'', recipientUsername = Some ''alice'',
          arweaveTxId = Some ''local:local-n1'', intervalHours = Some 1,
          nextDeadline = Some 3601000, status = Some Active, createdAt = Some 1000,
          triggeredAt = None \<rparr>
      else None)"
  by (simp add: getSwitch_def getHash_def s_local_store)

lemma keyed_s_local: "keyed s_local"
  by (simp add: keyed_def getSwitch_s_local)

theorem C2_witness:
  "(\<exists>s' body h.
     process_route s_created 7200000 (Some ''secret'') ''secret'' (\<lambda>u. True) blob_store
       = (s', Ok200 body, [''w1'']) \<and>
     sb_processed body = 1 \<and>
     getSwitch s' ''w1'' = Some h \<and> status h = Some Triggered \<and> triggeredAt h = Some 7200000 \<and>
     ''w1'' \<notin> set (smembers s' ACTIVE_SET) \<and>
     strs s' (releaseKey ''w1'') =
       Some (ReleaseJson ''w1'' (Some ''S'') (Some ''alice'') (Text ''ciphertext'') 7200000,
             7783200000)) \<and>
   (\<exists>s' body h.
     process_route s_local 7200000 (Some ''secret'') ''secret'' (\<lambda>u. True) (\<lambda>t. None)
       = (s', Ok200 body, [''w1'']) \<and>
     sb_processed body = 1 \<and>
     getSwitch s' ''w1'' = Some h \<and> status h = Some Triggered \<and> triggeredAt h = Some 7200000 \<and>
     ''w1'' \<notin> set (smembers s' ACTIVE_SET) \<and>
     strs s' (releaseKey ''w1'') =
       Some (ReleaseJson ''w1'' (Some ''S'') (Some ''alice'') (Text ''ciphertext'') 7200000,
             7783200000))"
proof -
  have d1: "distinct (smembers s_created ACTIVE_SET)"
    by (simp add: smembers_def s_created_store)
  from C2_processed_switches_are_released[OF keyed_s_created d1, of "Some ''secret''" "''secret''"
      7200000 "\<lambda>u. True" blob_store]
  obtain s' body log where
    route: "process_route s_created 7200000 (Some ''secret'') ''secret'' (\<lambda>u. True) blob_store
              = (s', Ok200 body, log)"
    and count: "sb_processed body = length log"
    and each: "\<forall>i \<in> set log. \<exists>sw h tx payload.
         getSwitch s_created i = Some sw \<and> status sw = Some Active \<and> arweaveTxId sw = Some tx \<and>
         getSwitch s' i = Some h \<and> status h = Some Triggered \<and> triggeredAt h = Some 7200000 \<and>
         i \<notin> set (smembers s' ACTIVE_SET) \<and> truthy payload \<and>
         (if startsWith tx ''local:''
          then \<exists>e. 7200000 < e \<and>
                 (strs s_created (''dms:'' @ drop 6 tx) = Some (payload, e) \<or>
                  strs s' (''dms:'' @ drop 6 tx) = Some (payload, e))
          else \<exists>m. blob_store tx = Some m \<and> payload = Text m) \<and>
         strs s' (releaseKey i) =
           Some (ReleaseJson i (senderPubkey sw) (recipientUsername sw) payload 7200000,
                 7200000 + 1000 * (90 * 24 * 60 * 60)) \<and>
         getString s' 7200000 (releaseKey i) =
           Some (ReleaseJson i (senderPubkey sw) (recipientUsername sw) payload 7200000)"
    by auto
  from route sweep_s_created_log have log: "log = [''w1'']" by simp
  with each obtain h where
    "getSwitch s' ''w1'' = Some h" "status h = Some Triggered" "triggeredAt h = Some 7200000"
    "''w1'' \<notin> set (smembers s' ACTIVE_SET)"
    "strs s' (releaseKey ''w1'') =
       Some (ReleaseJson ''w1'' (Some ''S'') (Some ''alice'') (Text ''ciphertext'') 7200000,
             7783200000)"
    by (auto simp: getSwitch_s_created startsWith_def blob_store_def)
  with route count log have first: "\<exists>s' body h.
     process_route s_created 7200000 (Some ''secret'') ''secret'' (\<lambda>u. True) blob_store
       = (s', Ok200 body, [''w1'']) \<and>
     sb_processed body = 1 \<and>
     getSwitch s' ''w1'' = Some h \<and> status h = Some Triggered \<and> triggeredAt h = Some 7200000 \<and>
     ''w1'' \<notin> set (smembers s' ACTIVE_SET) \<and>
     strs s' (releaseKey ''w1'') =
       Some (ReleaseJson ''w1'' (Some ''S'') (Some ''alice'') (Text ''ciphertext'') 7200000,
             7783200000)"
    by auto
  have d2: "distinct (smembers s_local ACTIVE_SET)"
    by (simp add: smembers_def s_local_store)
  from C2_processed_switches_are_released[OF keyed_s_local d2, of "Some ''secret''" "''secret''"
      7200000 "\<lambda>u. True" "\<lambda>t. None"]
  obtain t' body' log' where
    route': "process_route s_local 7200000 (Some ''secret'') ''secret'' (\<lambda>u. True) (\<lambda>t. None)
              = (t', Ok200 body', log')"
    and count': "sb_processed body' = length log'"
    and each': "\<forall>i \<in> set log'. \<exists>sw h tx payload.
         getSwitch s_local i = Some sw \<and> status sw = Some Active \<and> arweaveTxId sw = Some tx \<and>
         getSwitch t' i = Some h \<and> status h = Some Triggered \<and> triggeredAt h = Some 7200000 \<and>
         i \<notin> set (smembers t' ACTIVE_SET) \<and> truthy payload \<and>
         (if startsWith tx ''local:''
          then \<exists>e. 7200000 < e \<and>
                 (strs s_local (''dms:'' @ drop 6 tx) = Some (payload, e) \<or>
                  strs t' (''dms:'' @ drop 6 tx) = Some (payload, e))
          else \<exists>m. (\<lambda>t. None) tx = Some m \<and> payload = Text m) \<and>
         strs t' (releaseKey i) =
           Some (ReleaseJson i (senderPubkey sw) (recipientUsername sw) payload 7200000,
                 7200000 + 1000 * (90 * 24 * 60 * 60)) \<and>
         getString t' 7200000 (releaseKey i) =
           Some (ReleaseJson i (senderPubkey sw) (recipientUsername sw) payload 7200000)"
    by auto
  have "snd (snd (process_route s_local 7200000 (Some ''secret'') ''secret'' (\<lambda>u. True)
                    (\<lambda>t. None))) = [''w1'']"
    by (simp add: process_route_def getOverdueSwitches_def smembers_def s_local_store
        getSwitch_s_local processSwitch_def fetchPayload_def startsWith_def
        getMessageContent_def getString_def Let_def text_of_def split: prod.splits)
  with route' have log': "log' = [''w1'']" by simp
  with each' obtain sw h tx payload where w:
    "getSwitch s_local ''w1'' = Some sw" "arweaveTxId sw = Some tx"
    "getSwitch t' ''w1'' = Some h" "status h = Some Triggered" "triggeredAt h = Some 7200000"
    "''w1'' \<notin> set (smembers t' ACTIVE_SET)"
    "if startsWith tx ''local:''
          then \<exists>e. 7200000 < e \<and>
                 (strs s_local (''dms:'' @ drop 6 tx) = Some (payload, e) \<or>
                  strs t' (''dms:'' @ drop 6 tx) = Some (payload, e))
          else \<exists>m. (\<lambda>t. None) tx = Some m \<and> payload = Text m"
    "strs t' (releaseKey ''w1'') =
           Some (ReleaseJson ''w1'' (senderPubkey sw) (recipientUsername sw) payload 7200000,
                 7200000 + 1000 * (90 * 24 * 60 * 60))"
    by fastforce
  from w(1,2) have tx: "tx = ''local:local-n1''" "senderPubkey sw = Some ''S''"
    "recipientUsername sw = Some ''alice''"
    by (auto simp: getSwitch_s_local)
  have same: "strs t' ''dms:local-n1'' = strs s_local ''dms:local-n1''"
  proof -
    have "process_route s_local 7200000 (Some ''secret'') ''secret'' (\<lambda>u. True) (\<lambda>t. None)
            = (t', Ok200 body', log')" by (rule route')
    then have "strs t' = (strs s_local)(releaseKey ''w1'' \<mapsto>
         (ReleaseJson ''w1'' (Some ''S'') (Some ''alice'') (Text ''ciphertext'') 7200000,
          7783200000))"
      by (auto simp: process_route_def getOverdueSwitches_def smembers_def s_local_store
        getSwitch_s_local processSwitch_def fetchPayload_def startsWith_def
        getMessageContent_def getString_def Let_def text_of_def markTriggered_fields
        releaseKey_def split: prod.splits)
    then show ?thesis by (simp add: releaseKey_def)
  qed
  from w(7) tx(1) same have "payload = Text ''ciphertext''"
    by (auto simp: startsWith_def s_local_store)
  with w tx route' count' log' have second: "\<exists>s' body h.
     process_route s_local 7200000 (Some ''secret'') ''secret'' (\<lambda>u. True) (\<lambda>t. None)
       = (s', Ok200 body, [''w1'']) \<and>
     sb_processed body = 1 \<and>
     getSwitch s' ''w1'' = Some h \<and> status h = Some Triggered \<and> triggeredAt h = Some 7200000 \<and>
     ''w1'' \<notin> set (smembers s' ACTIVE_SET) \<and>
     strs s' (releaseKey ''w1'') =
       Some (ReleaseJson ''w1'' (Some ''S'') (Some ''alice'') (Text ''ciphertext'') 7200000,
             7783200000)"
    by auto
  from first second show ?thesis by blast
qed

theorem C9_witness:
  "\<exists>s1 d s2 body log s1h s2h bodyh logh.
     create_route emptyStore 1000 True True None ''w1'' ''n1'' alice_req =
       (s1, Ok200 \<lparr> cb_switchId = Some ''w1'', cb_nextDeadline = Some d \<rparr>) \<and>
     map_option arweaveTxId (getSwitch s1 ''w1'') = Some (Some ''local:local-n1'') \<and>
     strs s1 ''dms:local-n1'' = Some (Text ''ciphertext'', 31536001000) \<and>
     process_route s1 7200000 (Some ''secret'') ''secret'' (\<lambda>u. True) blob_store
       = (s2, Ok200 body, log) \<and>
     ''w1'' \<in> set log \<and>
     strs s2 (releaseKey ''w1'') =
       Some (ReleaseJson ''w1'' (Some ''S'') (Some ''alice'') (Text ''ciphertext'') 7200000,
             7783200000) \<and>
     create_route emptyStore 1000 True True (Some ''tx1'') ''w1'' ''n1'' alice_req =
       (s1h, Ok200 \<lparr> cb_switchId = Some ''w1'', cb_nextDeadline = Some d \<rparr>) \<and>
     process_route s1h 7200000 (Some ''secret'') ''secret'' (\<lambda>u. True) blob_store
       = (s2h, Ok200 bodyh, logh) \<and>
     strs s2h (releaseKey ''w1'') = strs s2 (releaseKey ''w1'')"
  using C9_fallback_round_trip_within_ttl[where req = alice_req and uuid = "''w1''"
      and s = emptyStore and dmsCronSecret = "''secret''" and ?t0.0 = 1000 and t = 7200000
      and gua = "\<lambda>u. True" and tx = "''tx1''" and arw = blob_store and nonce = "''n1''"]
    keyed_emptyStore
  by (simp add: alice_req_def blob_store_def startsWith_def)

text \<open>
  With the interval of 8760 hours the deadline, 31536001000, is the instant at which the
  fallback blob expires.  The sweep one hour after the deadline finds the switch overdue
  and the blob gone: nothing is processed, no release record is written, and the switch
  stays active.
\<close>

theorem C9_counterexample:
  "http_status (snd (create_route emptyStore 1000 True True None ''w1'' ''n1'' year_req)) = 200 \<and>
   map_option arweaveTxId (getSwitch s_fallback ''w1'') = Some (Some ''local:local-n1'') \<and>
   map_option nextDeadline (getSwitch s_fallback ''w1'') = Some (Some 31536001000) \<and>
   strs s_fallback ''dms:local-n1'' = Some (Text ''ciphertext'', 31536001000) \<and>
   snd (process_route s_fallback 31539601000 (Some ''secret'') ''secret'' (\<lambda>u. True) blob_store)
     = (Ok200 \<lparr> sb_processed = 0, sb_total = Some 1,
                 sb_errors = Some [PayloadUnavailable ''w1''] \<rparr>, []) \<and>
   strs (fst (process_route s_fallback 31539601000 (Some ''secret'') ''secret'' (\<lambda>u. True)
                blob_store)) (releaseKey ''w1'') = None \<and>
   map_option status
     (getSwitch (fst (process_route s_fallback 31539601000 (Some ''secret'') ''secret''
                        (\<lambda>u. True) blob_store)) ''w1'') = Some (Some Active)"
proof -
  have st: "switches s_fallback = [switchKey ''w1'' \<mapsto>
      \<lparr> switchId = Some ''w1'', senderPubkey = Some ''S'', recipientUsername = Some ''alice'',
        arweaveTxId = Some ''local:local-n1'', intervalHours = Some 8760,
        nextDeadline = Some 31536001000, status = Some Active, createdAt = Some 1000,
        triggeredAt = None \<rparr>]"
    "sets s_fallback ACTIVE_SET = [''w1'']"
    "strs s_fallback = [''dms:local-n1'' \<mapsto> (Text ''ciphertext'', 31536001000)]"
    by (simp_all add: s_fallback_def create_route_def year_req_def createSwitch_def Let_def
        sadd_def emptyStore_def noFields_def storeMessageBlob_def setStringWithExpiry_def
        setHash_def)
  have g: "getSwitch s_fallback i =
     (if i = ''w1'' then Some
        \<lparr> switchId = Some ''w1'', senderPubkey = Some ''S'', recipientUsername = Some ''alice'',
        arweaveTxId = Some ''local:local-n1'', intervalHours = Some 8760,
        nextDeadline = Some 31536001000, status = Some Active, createdAt = Some 1000,
        triggeredAt = None \<rparr>
      else None)" for i
    by (simp add: getSwitch_def getHash_def st)
  have c: "http_status (snd (create_route emptyStore 1000 True True None ''w1'' ''n1'' year_req)) = 200"
    by (simp add: create_route_def year_req_def Let_def split: prod.splits)
  have p: "process_route s_fallback 31539601000 (Some ''secret'') ''secret'' (\<lambda>u. True) blob_store
     = (s_fallback, Ok200 \<lparr> sb_processed = 0, sb_total = Some 1,
                 sb_errors = Some [PayloadUnavailable ''w1''] \<rparr>, [])"
    by (simp add: process_route_def getOverdueSwitches_def smembers_def st g processSwitch_def
        fetchPayload_def startsWith_def getMessageContent_def getString_def Let_def text_of_def
        split: prod.splits)
  show ?thesis
    by (simp add: c p g st releaseKey_def)
qed



section \<open>The records stay keyed by their ids\<close>

lemma keyed_by_view:
  assumes "keyed s"
    and "\<And>i. map_option index_view (getSwitch s' i) = map_option index_view (getSwitch s i)"
  shows "keyed s'"
  unfolding keyed_def
proof (intro allI impI)
  fix i sw
  assume "getSwitch s' i = Some sw"
  with assms(2)[of i] obtain sw0 where "getSwitch s i = Some sw0" "switchId sw0 = switchId sw"
    by (cases "getSwitch s i") (auto simp: index_view_def)
  with assms(1) show "switchId sw = Some i" by (simp add: keyed_def)
qed

lemma keyed_markTriggered: "keyed s \<Longrightarrow> keyed (markTriggered s now j)"
  by (auto simp: keyed_def markTriggered_def Let_def getSwitch_setHash_keep)

lemma keyed_cancelSwitch: "keyed s \<Longrightarrow> keyed (fst (cancelSwitch s j pk))"
  by (auto simp: keyed_def cancelSwitch_def Let_def getSwitch_setHash_keep split: option.splits)

lemma keyed_refreshDeadlines:
  assumes "keyed s"
  shows "keyed (fst (refreshDeadlines s now pk))"
proof -
  let ?act = "filter (\<lambda>sw. status sw = Some Active) (getUserSwitches s pk)"
  have "fst (refreshDeadlines s now pk) = fst (refreshLoop now ?act s None)"
    by (simp add: refreshDeadlines_def Let_def split: prod.splits sum.splits)
  then show ?thesis
    using keyed_by_view[OF assms] refreshLoop_frame[of now ?act s None] by simp
qed

lemma keyed_getOverdueSwitches: "keyed s \<Longrightarrow> keyed (fst (getOverdueSwitches s now))"
  using overdueLoop_frame[of now "smembers s ACTIVE_SET" s]
  by (simp add: keyed_def getOverdueSwitches_def getSwitch_def getHash_def)

lemma keyed_processSwitch:
  "keyed (fst st) \<Longrightarrow> keyed (fst (processSwitch gua arw now sw st))"
  by (auto simp: processSwitch_def Let_def keyed_markTriggered split: option.splits)

lemma keyed_fold_processSwitch:
  "keyed (fst st) \<Longrightarrow> keyed (fst (fold (processSwitch gua arw now) sws st))"
  by (induction sws arbitrary: st) (simp_all add: keyed_processSwitch)

lemma keyed_process_route:
  assumes "keyed s"
  shows "keyed (fst (process_route s now hdr secret gua arw))"
proof -
  obtain s1 overdue where o: "getOverdueSwitches s now = (s1, overdue)"
    by (cases "getOverdueSwitches s now")
  with keyed_getOverdueSwitches[OF assms, of now] have k1: "keyed s1" by simp
  then have "keyed (fst (fold (processSwitch gua arw now) overdue
                (s1, \<lparr> processed = 0, errors = [], triggeredLog = [] \<rparr>)))"
    by (intro keyed_fold_processSwitch) simp
  with k1 assms o show ?thesis
    by (auto simp: process_route_def Let_def split: prod.splits)
qed

lemma keyed_preserved:
  assumes "keyed s"
  shows "keyed (fst (createSwitch s now uuid input)) \<and>
         keyed (fst (refreshDeadlines s now pk)) \<and>
         keyed (fst (cancelSwitch s sid pk)) \<and>
         keyed (markTriggered s now sid) \<and>
         keyed (fst (getOverdueSwitches s now)) \<and>
         keyed (fst (process_route s now hdr secret gua arw))"
  using assms
  by (simp add: keyed_createSwitch keyed_refreshDeadlines keyed_cancelSwitch keyed_markTriggered
      keyed_getOverdueSwitches keyed_process_route)

section \<open>The sets list each member once\<close>

lemma distinct_sets_emptyStore: "distinct (sets emptyStore k)"
  by (simp add: emptyStore_def)

lemma distinct_sets_sadd:
  "\<forall>k. distinct (sets s k) \<Longrightarrow> distinct (sets (sadd s k' x) k)"
  by (simp add: sadd_def)

lemma distinct_sets_srem:
  "\<forall>k. distinct (sets s k) \<Longrightarrow> distinct (sets (srem s k' x) k)"
  by (simp add: distinct_removeAll)

lemma distinct_sets_createSwitch:
  assumes "\<forall>k. distinct (sets s k)"
  shows "distinct (sets (fst (createSwitch s now uuid input)) k)"
  using assms by (simp add: createSwitch_def Let_def sadd_def)

lemma distinct_sets_cancelSwitch:
  assumes "\<forall>k. distinct (sets s k)"
  shows "distinct (sets (fst (cancelSwitch s sid pk)) k)"
  using assms
  by (auto simp: cancelSwitch_def Let_def distinct_removeAll split: option.splits)

lemma distinct_sets_markTriggered:
  assumes "\<forall>k. distinct (sets s k)"
  shows "distinct (sets (markTriggered s now sid) k)"
  using assms by (simp add: markTriggered_fields distinct_removeAll)

lemma distinct_sets_refreshDeadlines:
  assumes "\<forall>k. distinct (sets s k)"
  shows "distinct (sets (fst (refreshDeadlines s now pk)) k)"
proof -
  let ?act = "filter (\<lambda>sw. status sw = Some Active) (getUserSwitches s pk)"
  have "fst (refreshDeadlines s now pk) = fst (refreshLoop now ?act s None)"
    by (simp add: refreshDeadlines_def Let_def split: prod.splits sum.splits)
  then show ?thesis
    using assms refreshLoop_frame[of now ?act s None] by simp
qed

lemma distinct_sets_overdueLoop:
  "\<forall>k. distinct (sets s k) \<Longrightarrow> distinct (sets (fst (overdueLoop now ids s)) k)"
proof (induction ids arbitrary: s)
  case Nil
  then show ?case by simp
next
  case (Cons a ids)
  have r: "\<forall>k. distinct (sets (srem s ACTIVE_SET a) k)"
    using Cons.prems by (simp add: distinct_removeAll)
  show ?case
    using Cons.IH[OF r] Cons.IH[OF Cons.prems]
    by (auto split: option.splits prod.splits)
qed

lemma distinct_sets_processSwitch:
  "\<forall>k. distinct (sets (fst st) k) \<Longrightarrow>
   distinct (sets (fst (processSwitch gua arw now sw st)) k)"
  by (auto simp: processSwitch_def Let_def markTriggered_fields distinct_removeAll
      split: option.splits)

lemma distinct_sets_fold_processSwitch:
  "\<forall>k. distinct (sets (fst st) k) \<Longrightarrow>
   distinct (sets (fst (fold (processSwitch gua arw now) sws st)) k)"
proof (induction sws arbitrary: st)
  case Nil
  then show ?case by simp
next
  case (Cons a sws)
  have "\<forall>k. distinct (sets (fst (processSwitch gua arw now a st)) k)"
    using Cons.prems by (simp add: distinct_sets_processSwitch)
  from Cons.IH[OF this] show ?case by simp
qed

lemma distinct_sets_process_route:
  assumes "\<forall>k. distinct (sets s k)"
  shows "distinct (sets (fst (process_route s now hdr secret gua arw)) k)"
proof -
  obtain s1 overdue where o: "getOverdueSwitches s now = (s1, overdue)"
    by (cases "getOverdueSwitches s now")
  have d1: "\<forall>k. distinct (sets s1 k)"
    using distinct_sets_overdueLoop[OF assms, of now "smembers s ACTIVE_SET"] o
    by (simp add: getOverdueSwitches_def)
  then have "distinct (sets (fst (fold (processSwitch gua arw now) overdue
                (s1, \<lparr> processed = 0, errors = [], triggeredLog = [] \<rparr>))) k)"
    by (intro distinct_sets_fold_processSwitch) simp
  with d1 assms o show ?thesis
    by (auto simp: process_route_def Let_def split: prod.splits)
qed

lemma distinct_sets_preserved:
  assumes "\<forall>k. distinct (sets s k)"
  shows "distinct (sets (fst (createSwitch s now uuid input)) k) \<and>
         distinct (sets (fst (refreshDeadlines s now pk)) k) \<and>
         distinct (sets (fst (cancelSwitch s sid pk)) k) \<and>
         distinct (sets (markTriggered s now sid) k) \<and>
         distinct (sets (fst (getOverdueSwitches s now)) k) \<and>
         distinct (sets (fst (process_route s now hdr secret gua arw)) k)"
  using assms distinct_sets_overdueLoop[OF assms, of now "smembers s ACTIVE_SET" k]
  by (simp add: distinct_sets_createSwitch distinct_sets_refreshDeadlines
      distinct_sets_cancelSwitch distinct_sets_markTriggered distinct_sets_process_route
      getOverdueSwitches_def)

end
